theory Spec2Isabelle
  imports Complex_Main "HOL-Library.Sublist"
begin

section \<open>Errors and results\<close>

text \<open>
  The exceptions that \<^verbatim>\<open>src/repo2docker/app.py\<close> can raise in the code modelled below.
  A call that may raise returns \<open>py_error + 'a\<close>, with \<open>Inl\<close> for the exception.
  \<open>SystemExit c\<close> is what \<^verbatim>\<open>sys.exit(c)\<close> raises; nothing in the module catches it, so it
  ends the invocation with exit code \<open>c\<close>.
\<close>

datatype py_error =
    IndexError
  | KeyError string
  | TypeError
  | UnboundLocalError string
  | RuntimeError string
  | SystemExit int
  | Raised string

section \<open>The buildpack interface\<close>

text \<open>
  The buildpack classes live in \<^verbatim>\<open>repo2docker.detectors\<close>, which the module only imports.
  They are consumed through three operations, taken here as parameters:
  \<open>new m parent\<close> is the constructor call \<^verbatim>\<open>m(parent=parent)\<close> of the class \<open>m\<close>,
  \<open>compose_with image other\<close> is \<^verbatim>\<open>image.compose_with(other)\<close>, and
  \<open>detect bp\<close> is \<^verbatim>\<open>bp.detect()\<close> on the working tree of the invocation.
\<close>

record ('m, 'p, 'b) detectors =
  new :: "'m \<Rightarrow> 'p \<Rightarrow> 'b"
  compose_with :: "'b \<Rightarrow> 'b \<Rightarrow> 'b"
  detect :: "'b \<Rightarrow> bool"

section \<open>compose\<close>

text \<open>
  \<^verbatim>\<open>
  def compose(buildpacks, parent=None):
      image = buildpacks[0](parent=parent)
      for buildpack in buildpacks[1:]:
          image = image.compose_with(buildpack(parent=parent))
      return image
  \<close>
  \<open>compose_loop\<close> is the \<^verbatim>\<open>for\<close> loop, with the variable \<^verbatim>\<open>image\<close> as its accumulator;
  \<^verbatim>\<open>buildpacks[0]\<close> on an empty sequence raises \<^verbatim>\<open>IndexError\<close>.
\<close>

fun compose_loop :: "('m, 'p, 'b) detectors \<Rightarrow> 'p \<Rightarrow> 'b \<Rightarrow> 'm list \<Rightarrow> 'b" where
  "compose_loop D parent img [] = img"
| "compose_loop D parent img (buildpack # rest) =
     compose_loop D parent (compose_with D img (new D buildpack parent)) rest"

definition compose :: "('m, 'p, 'b) detectors \<Rightarrow> 'm list \<Rightarrow> 'p \<Rightarrow> py_error + 'b" where
  "compose D buildpacks parent =
     (case buildpacks of
        [] \<Rightarrow> Inl IndexError
      | first # rest \<Rightarrow> Inr (compose_loop D parent (new D first parent) rest))"

section \<open>JSON values, dictionaries and the log\<close>

text \<open>
  The progress records of the container engine are JSON objects decoded into Python
  dictionaries. A dictionary with string keys is an association list read with
  \<open>map_of\<close>; numbers are rationals.
\<close>

datatype json =
    JNull
  | JBool bool
  | JNum rat
  | JStr string
  | JArr "json list"
  | JObj "(string \<times> json) list"

type_synonym pydict = "(string \<times> json) list"

text \<open>Python's truth value of a decoded JSON value, as \<^verbatim>\<open>if x:\<close> tests it.\<close>

fun truthy :: "json \<Rightarrow> bool" where
  "truthy JNull = False"
| "truthy (JBool b) = b"
| "truthy (JNum r) = (r \<noteq> 0)"
| "truthy (JStr s) = (s \<noteq> [])"
| "truthy (JArr xs) = (xs \<noteq> [])"
| "truthy (JObj kvs) = (kvs \<noteq> [])"

text \<open>\<^verbatim>\<open>k in d\<close> and \<^verbatim>\<open>d[k]\<close>; the latter raises \<^verbatim>\<open>KeyError\<close> on a missing key.\<close>

definition has_key :: "pydict \<Rightarrow> string \<Rightarrow> bool" where
  "has_key d k = (map_of d k \<noteq> None)"

definition getitem :: "pydict \<Rightarrow> string \<Rightarrow> py_error + json" where
  "getitem d k = (case map_of d k of None \<Rightarrow> Inl (KeyError k) | Some v \<Rightarrow> Inr v)"

text \<open>
  A call of \<^verbatim>\<open>self.log.debug/info/error(msg, extra=dict(phase=...))\<close> appends one record
  to the log: level, message and phase. The message is a text, a JSON value taken from a
  progress record, or \<^verbatim>\<open>json.dumps\<close> of a whole record. \<open>LogProgress\<close> is a call with
  \<^verbatim>\<open>extra=dict(progress=layers, phase=...)\<close>; it carries the layers as they are at the call.
\<close>

datatype level = DEBUG | INFO | ERROR

datatype message = Text string | Value json | Dumps pydict

datatype log_record =
    Log level message string
  | LogProgress level message string "(json \<times> json) list"

section \<open>Picking the buildpack (start, lines 368 to 374)\<close>

text \<open>
  \<^verbatim>\<open>
  picked_buildpack = compose(self.default_buildpack, parent=self)

  for bp_spec in self.buildpacks:
      bp = compose(bp_spec, parent=self)
      if bp.detect():
          picked_buildpack = bp
          break
  \<close>
  Every call of compose creates a new object. The objects are kept in a store, in the
  order of their creation, and the variables \<^verbatim>\<open>picked_buildpack\<close> and \<^verbatim>\<open>bp\<close> hold
  addresses into it, so that the default's object is told apart from the object of a
  catalog entry with the same chain. \<^verbatim>\<open>bp\<close> is unbound (\<open>None\<close>) until the loop body has
  run once. \<open>calls\<close> records the calls of compose and of \<^verbatim>\<open>detect()\<close> as they are made.
\<close>

datatype 'm call = ComposeCall "'m list" | DetectCall nat

record ('m, 'b) picking =
  picked_buildpack :: nat
  bp :: "nat option"
  objects :: "'b list"
  calls :: "'m call list"

fun pick_loop ::
  "('m, 'p, 'b) detectors \<Rightarrow> 'p \<Rightarrow> 'm list list \<Rightarrow> ('m, 'b) picking
     \<Rightarrow> py_error + ('m, 'b) picking" where
  "pick_loop D parent [] st = Inr st"
| "pick_loop D parent (bp_spec # rest) st =
     (case compose D bp_spec parent of
        Inl e \<Rightarrow> Inl e
      | Inr b \<Rightarrow>
          (let a = length (objects st);
               st' = st\<lparr>bp := Some a, objects := objects st @ [b],
                        calls := calls st @ [ComposeCall bp_spec, DetectCall a]\<rparr>
           in if detect D b then Inr (st'\<lparr>picked_buildpack := a\<rparr>)
              else pick_loop D parent rest st'))"

definition pick_buildpack ::
  "('m, 'p, 'b) detectors \<Rightarrow> 'p \<Rightarrow> 'm list \<Rightarrow> 'm list list
     \<Rightarrow> py_error + ('m, 'b) picking" where
  "pick_buildpack D parent default_buildpack buildpacks =
     (case compose D default_buildpack parent of
        Inl e \<Rightarrow> Inl e
      | Inr d \<Rightarrow>
          pick_loop D parent buildpacks
            \<lparr>picked_buildpack = 0, bp = None, objects = [d],
             calls = [ComposeCall default_buildpack]\<rparr>)"

text \<open>
  The selection in the words of the specification: the first catalog entry whose
  composed strategy detects the repository, the composed default if there is none.
  \<open>matches\<close> says that an entry's \<^verbatim>\<open>detect()\<close> returns true, \<open>tried_entries\<close> is the
  catalog up to and including the first such entry, and \<open>expected_calls\<close> is one compose
  and one detect per entry, on the objects created from address \<open>a\<close> on.
\<close>

definition matches :: "('m, 'p, 'b) detectors \<Rightarrow> 'p \<Rightarrow> 'm list \<Rightarrow> bool" where
  "matches D parent spec =
     (case compose D spec parent of Inl e \<Rightarrow> False | Inr b \<Rightarrow> detect D b)"

definition select_spec ::
  "('m, 'p, 'b) detectors \<Rightarrow> 'p \<Rightarrow> 'm list \<Rightarrow> 'm list list \<Rightarrow> py_error + 'b" where
  "select_spec D parent default_buildpack buildpacks =
     (case find (matches D parent) buildpacks of
        None \<Rightarrow> compose D default_buildpack parent
      | Some spec \<Rightarrow> compose D spec parent)"

fun tried_entries :: "('a \<Rightarrow> bool) \<Rightarrow> 'a list \<Rightarrow> 'a list" where
  "tried_entries P [] = []"
| "tried_entries P (x # xs) = (if P x then [x] else x # tried_entries P xs)"

fun expected_calls :: "nat \<Rightarrow> 'm list list \<Rightarrow> 'm call list" where
  "expected_calls a [] = []"
| "expected_calls a (spec # specs) =
     ComposeCall spec # DetectCall a # expected_calls (Suc a) specs"

section \<open>The build loop (start, lines 380 to 389)\<close>

text \<open>
  \<^verbatim>\<open>
  for l in picked_buildpack.build(self.output_image_spec):
      if 'stream' in l:
          self.log.info(l['stream'], extra=dict(phase='building'))
      elif 'error' in l:
          self.log.info(l['error'], extra=dict(phase='failure'))
          sys.exit(1)
      elif 'status' in l:
          self.log.info('Fetching base image...\r', extra=dict(phase='building'))
      else:
          self.log.info(json.dumps(l), extra=dict(phase='building'))
  \<close>
  The records are taken from the iterator one at a time; the third component of the
  result counts the records taken. \<^verbatim>\<open>sys.exit(1)\<close> leaves the loop with \<open>SystemExit 1\<close>.
\<close>

fun build_loop ::
  "pydict list \<Rightarrow> log_record list \<Rightarrow> nat \<Rightarrow> (py_error + unit) \<times> log_record list \<times> nat" where
  "build_loop [] lg n = (Inr (), lg, n)"
| "build_loop (l # rest) lg n =
     (case map_of l ''stream'' of
        Some s \<Rightarrow> build_loop rest (lg @ [Log INFO (Value s) ''building'']) (Suc n)
      | None \<Rightarrow>
     (case map_of l ''error'' of
        Some e \<Rightarrow> (Inl (SystemExit 1), lg @ [Log INFO (Value e) ''failure''], Suc n)
      | None \<Rightarrow>
     (if has_key l ''status''
      then build_loop rest
             (lg @ [Log INFO (Text (''Fetching base image...'' @ [CHR 0x0D])) ''building''])
             (Suc n)
      else build_loop rest (lg @ [Log INFO (Dumps l) ''building'']) (Suc n))))"

text \<open>A record stops the build loop when it has an \<^verbatim>\<open>error\<close> key and no \<^verbatim>\<open>stream\<close> key.\<close>

definition halts :: "pydict \<Rightarrow> bool" where
  "halts l = (has_key l ''error'' \<and> \<not> has_key l ''stream'')"

text \<open>A buildpack interface for examples: an instance is the list of its mixins' names.\<close>

definition demo_detectors :: "(string, unit, string list) detectors" where
  "demo_detectors =
     \<lparr>new = (\<lambda>m _. [m]), compose_with = (\<lambda>a b. a @ b),
      detect = (\<lambda>b. ''Conda'' \<in> set b)\<rparr>"

section \<open>Decimal numerals\<close>

text \<open>Python's \<^verbatim>\<open>str\<close> on a non-negative integer: its decimal digits.\<close>

fun str :: "nat \<Rightarrow> string" where
  "str n = (if n < 10 then [''0123456789'' ! n]
            else str (n div 10) @ [''0123456789'' ! (n mod 10)])"

declare str.simps [simp del]

section \<open>fetch\<close>

text \<open>
  \<^verbatim>\<open>execute_cmd\<close> comes from \<^verbatim>\<open>repo2docker.utils\<close>. It runs a command, yields its output lines
  and raises \<^verbatim>\<open>subprocess.CalledProcessError\<close> at the end when the command failed. It is a
  parameter: \<open>exec c w\<close> runs the call \<open>c\<close> in the world \<open>w\<close> and gives the lines, whether
  the command succeeded, and the world afterwards.
\<close>

record cmd_call =
  argv :: "string list"
  cwd :: "string option"
  capture :: bool

type_synonym 'w execute_cmd = "cmd_call \<Rightarrow> 'w \<Rightarrow> (string list \<times> bool) \<times> 'w"

text \<open>The state of a fetch: the outside world, the commands run so far, and the log.\<close>

record 'w fetch_state =
  world :: 'w
  cmds :: "cmd_call list"
  flog :: "log_record list"

text \<open>
  The loop \<^verbatim>\<open>for line in execute_cmd(...): self.log.<level>(line, extra=dict(phase='fetching'))\<close>
  that the four local functions share; the result says whether the command succeeded.
\<close>

definition run_logged ::
  "'w execute_cmd \<Rightarrow> cmd_call \<Rightarrow> level \<Rightarrow> 'w fetch_state \<Rightarrow> bool \<times> 'w fetch_state" where
  "run_logged exec c lvl st =
     (case exec c (world st) of
        ((lines, ok), w') \<Rightarrow>
          (ok, st\<lparr>world := w', cmds := cmds st @ [c],
                   flog := flog st @ map (\<lambda>line. Log lvl (Text line) ''fetching'') lines\<rparr>))"

definition log_failed :: "string \<Rightarrow> 'w fetch_state \<Rightarrow> 'w fetch_state" where
  "log_failed msg st = st\<lparr>flog := flog st @ [Log ERROR (Text msg) ''failed'']\<rparr>"

definition clone ::
  "'w execute_cmd \<Rightarrow> bool \<Rightarrow> string \<Rightarrow> string \<Rightarrow> nat option \<Rightarrow> 'w fetch_state
     \<Rightarrow> (py_error + unit) \<times> 'w fetch_state" where
  "clone exec json_logs url checkout_path depth st =
     (let command =
            (case depth of
               Some d \<Rightarrow> [''git'', ''clone'', ''--depth'', str d, url, checkout_path]
             | None \<Rightarrow> [''git'', ''clone'', url, checkout_path])
      in case run_logged exec \<lparr>argv = command, cwd = None, capture = json_logs\<rparr> INFO st of
           (True, st') \<Rightarrow> (Inr (), st')
         | (False, st') \<Rightarrow>
             (Inl (RuntimeError (''Failed to clone '' @ url @ ''.'')),
              log_failed ''Failed to clone repository!'' st'))"

definition unshallow ::
  "'w execute_cmd \<Rightarrow> bool \<Rightarrow> string \<Rightarrow> string \<Rightarrow> 'w fetch_state
     \<Rightarrow> (py_error + unit) \<times> 'w fetch_state" where
  "unshallow exec json_logs url checkout_path st =
     (case run_logged exec
             \<lparr>argv = [''git'', ''fetch'', ''--unshallow''], cwd = Some checkout_path,
              capture = json_logs\<rparr> INFO st of
        (True, st') \<Rightarrow> (Inr (), st')
      | (False, st') \<Rightarrow>
          (Inl (RuntimeError (''Failed to create a full clone of '' @ url @ ''.'')),
           log_failed ''Failed to unshallow repository!'' st'))"

definition contains ::
  "'w execute_cmd \<Rightarrow> bool \<Rightarrow> string \<Rightarrow> string \<Rightarrow> 'w fetch_state \<Rightarrow> bool \<times> 'w fetch_state" where
  "contains exec json_logs checkout_path ref st =
     run_logged exec
       \<lparr>argv = [''git'', ''cat-file'', ''-t'', ref], cwd = Some checkout_path,
        capture = json_logs\<rparr> DEBUG st"

definition checkout ::
  "'w execute_cmd \<Rightarrow> bool \<Rightarrow> string \<Rightarrow> string \<Rightarrow> string \<Rightarrow> 'w fetch_state
     \<Rightarrow> (py_error + unit) \<times> 'w fetch_state" where
  "checkout exec json_logs url checkout_path ref st =
     (case run_logged exec
             \<lparr>argv = [''git'', ''reset'', ''--hard'', ref], cwd = Some checkout_path,
              capture = json_logs\<rparr> INFO st of
        (True, st') \<Rightarrow> (Inr (), st')
      | (False, st') \<Rightarrow>
          (Inl (RuntimeError (''Failed to checkout reference '' @ ref @ '' for '' @ url @ ''.'')),
           log_failed (''Failed to check out ref '' @ ref) st'))"

text \<open>
  \<^verbatim>\<open>
  _clone(depth=50)
  if not _contains(ref):
      _unshallow()
  _checkout(ref)
  \<close>
\<close>

definition fetch ::
  "'w execute_cmd \<Rightarrow> bool \<Rightarrow> string \<Rightarrow> string \<Rightarrow> string \<Rightarrow> 'w fetch_state
     \<Rightarrow> (py_error + unit) \<times> 'w fetch_state" where
  "fetch exec json_logs url ref checkout_path st =
     (case clone exec json_logs url checkout_path (Some 50) st of
        (Inl e, st1) \<Rightarrow> (Inl e, st1)
      | (Inr _, st1) \<Rightarrow>
          (case contains exec json_logs checkout_path ref st1 of
             (False, st2) \<Rightarrow>
               (case unshallow exec json_logs url checkout_path st2 of
                  (Inl e, st3) \<Rightarrow> (Inl e, st3)
                | (Inr _, st3) \<Rightarrow> checkout exec json_logs url checkout_path ref st3)
           | (True, st2) \<Rightarrow> checkout exec json_logs url checkout_path ref st2))"

text \<open>
  For the statements about fetch: the four commands it can run, and the outcome and the
  world after running a command.
\<close>

definition clone_cmd :: "bool \<Rightarrow> string \<Rightarrow> string \<Rightarrow> cmd_call" where
  "clone_cmd json_logs url checkout_path =
     \<lparr>argv = [''git'', ''clone'', ''--depth'', ''50'', url, checkout_path], cwd = None,
      capture = json_logs\<rparr>"

definition probe_cmd :: "bool \<Rightarrow> string \<Rightarrow> string \<Rightarrow> cmd_call" where
  "probe_cmd json_logs checkout_path ref =
     \<lparr>argv = [''git'', ''cat-file'', ''-t'', ref], cwd = Some checkout_path,
      capture = json_logs\<rparr>"

definition unshallow_cmd :: "bool \<Rightarrow> string \<Rightarrow> cmd_call" where
  "unshallow_cmd json_logs checkout_path =
     \<lparr>argv = [''git'', ''fetch'', ''--unshallow''], cwd = Some checkout_path,
      capture = json_logs\<rparr>"

definition reset_cmd :: "bool \<Rightarrow> string \<Rightarrow> string \<Rightarrow> cmd_call" where
  "reset_cmd json_logs checkout_path ref =
     \<lparr>argv = [''git'', ''reset'', ''--hard'', ref], cwd = Some checkout_path,
      capture = json_logs\<rparr>"

definition succeeds :: "'w execute_cmd \<Rightarrow> cmd_call \<Rightarrow> 'w \<Rightarrow> bool" where
  "succeeds exec c w = snd (fst (exec c w))"

definition after :: "'w execute_cmd \<Rightarrow> cmd_call \<Rightarrow> 'w \<Rightarrow> 'w" where
  "after exec c w = snd (exec c w)"

text \<open>
  A world for examples: the list of the outcomes of the commands still to come, each
  command printing nothing.
\<close>

fun scripted :: "bool list execute_cmd" where
  "scripted c [] = (([], True), [])"
| "scripted c (ok # oks) = (([], ok), oks)"

section \<open>push_image\<close>

text \<open>
  The dictionary \<^verbatim>\<open>layers\<close> is keyed by \<^verbatim>\<open>progress['id']\<close>, a decoded JSON value. A list or
  an object is not hashable and raises \<^verbatim>\<open>TypeError\<close> as a key. Python compares the keys
  \<^verbatim>\<open>True\<close>, \<^verbatim>\<open>1\<close> and \<^verbatim>\<open>1.0\<close> equal; all other keys are equal when they are the same value.
  An assignment keeps the place and the key of an entry that is there already and appends
  a new one at the end.
\<close>

fun hashable :: "json \<Rightarrow> bool" where
  "hashable (JArr xs) = False"
| "hashable (JObj kvs) = False"
| "hashable v = True"

fun key_num :: "json \<Rightarrow> rat option" where
  "key_num (JBool b) = Some (if b then 1 else 0)"
| "key_num (JNum r) = Some r"
| "key_num v = None"

definition key_eq :: "json \<Rightarrow> json \<Rightarrow> bool" where
  "key_eq a b =
     (case (key_num a, key_num b) of
        (Some x, Some y) \<Rightarrow> x = y
      | (None, None) \<Rightarrow> a = b
      | _ \<Rightarrow> False)"

fun dict_update :: "(json \<times> json) list \<Rightarrow> json \<Rightarrow> json \<Rightarrow> (json \<times> json) list" where
  "dict_update [] k v = [(k, v)]"
| "dict_update ((k', v') # d) k v =
     (if key_eq k' k then (k', v) # d else (k', v') # dict_update d k v)"

definition setitem ::
  "(json \<times> json) list \<Rightarrow> json \<Rightarrow> json \<Rightarrow> py_error + (json \<times> json) list" where
  "setitem d k v = (if hashable k then Inr (dict_update d k v) else Inl TypeError)"

text \<open>
  The update of the snapshot for one record that has an \<^verbatim>\<open>id\<close> key \<open>i\<close>:
  \<^verbatim>\<open>
  if 'progressDetail' in progress and progress['progressDetail']:
      layers[progress['id']] = progress['progressDetail']
  else:
      layers[progress['id']] = progress['status']
  \<close>
  The right-hand side of an assignment is evaluated before the subscript of its target,
  so a missing \<^verbatim>\<open>status\<close> raises \<^verbatim>\<open>KeyError\<close> before the key is hashed.
\<close>

definition store_status ::
  "(json \<times> json) list \<Rightarrow> pydict \<Rightarrow> json \<Rightarrow> py_error + (json \<times> json) list" where
  "store_status layers progress i =
     (case getitem progress ''status'' of
        Inl e \<Rightarrow> Inl e
      | Inr s \<Rightarrow> setitem layers i s)"

definition update_layers ::
  "(json \<times> json) list \<Rightarrow> pydict \<Rightarrow> json \<Rightarrow> py_error + (json \<times> json) list" where
  "update_layers layers progress i =
     (case map_of progress ''progressDetail'' of
        Some d \<Rightarrow> if truthy d then setitem layers i d else store_status layers progress i
      | None \<Rightarrow> store_status layers progress i)"

text \<open>
  \<^verbatim>\<open>time.time()\<close> is read from a clock: \<open>clock k\<close> is the value of the \<open>k\<close>-th reading
  made during the invocation, and \<open>ticks\<close> counts the readings made so far. The readings
  are real numbers, and so is the difference \<^verbatim>\<open>time.time() - last_emit_time\<close>. The
  floating-point difference is the rounded exact one, and rounding is monotone and keeps
  \<open>1.5\<close>, so it exceeds \<open>1.5\<close> only when the exact difference does: every emission of
  the program is an emission of this model.

  \<open>emitted\<close> is there for the statements: for each emission of the snapshot, the reading
  that passed the test and the reading stored in \<^verbatim>\<open>last_emit_time\<close> after the log call.
\<close>

record push_state =
  layers :: "(json \<times> json) list"
  last_emit_time :: real
  ticks :: nat
  plog :: "log_record list"
  emitted :: "(real \<times> real) list"

text \<open>
  \<^verbatim>\<open>
  for line in client.push(self.output_image_spec, stream=True):
      progress = json.loads(line.decode('utf-8'))
      if 'error' in progress:
          self.log.error(progress['error'], extra=dict(phase='failed'))
          sys.exit(1)
      if 'id' not in progress:
          continue
      (the update of layers, above)
      if time.time() - last_emit_time > 1.5:
          self.log.info('Pushing image\n', extra=dict(progress=layers, phase='pushing'))
          last_emit_time = time.time()
  \<close>
  The argument is the sequence of the decoded records.
\<close>

fun push_loop ::
  "(nat \<Rightarrow> real) \<Rightarrow> pydict list \<Rightarrow> push_state \<Rightarrow> (py_error + unit) \<times> push_state" where
  "push_loop clock [] st = (Inr (), st)"
| "push_loop clock (progress # rest) st =
     (case map_of progress ''error'' of
        Some e \<Rightarrow>
          (Inl (SystemExit 1), st\<lparr>plog := plog st @ [Log ERROR (Value e) ''failed'']\<rparr>)
      | None \<Rightarrow>
     (case map_of progress ''id'' of
        None \<Rightarrow> push_loop clock rest st
      | Some i \<Rightarrow>
     (case update_layers (layers st) progress i of
        Inl err \<Rightarrow> (Inl err, st)
      | Inr layers' \<Rightarrow>
          (let now = clock (ticks st);
               st1 = st\<lparr>layers := layers', ticks := Suc (ticks st)\<rparr>
           in if now - last_emit_time st1 > 1.5
              then push_loop clock rest
                     (st1\<lparr>plog := plog st1 @
                             [LogProgress INFO (Text (''Pushing image'' @ [CHR 0x0A]))
                                ''pushing'' layers'],
                           last_emit_time := clock (ticks st1),
                           ticks := Suc (ticks st1),
                           emitted := emitted st1 @ [(now, clock (ticks st1))]\<rparr>)
              else push_loop clock rest st1))))"

text \<open>
  \<^verbatim>\<open>
  layers = {}
  last_emit_time = time.time()
  \<close>
  and the loop.
\<close>

definition push_image :: "(nat \<Rightarrow> real) \<Rightarrow> pydict list \<Rightarrow> (py_error + unit) \<times> push_state" where
  "push_image clock records =
     push_loop clock records
       \<lparr>layers = [], last_emit_time = clock 0, ticks = 1, plog = [], emitted = []\<rparr>"

text \<open>
  Emissions that keep their distance: the first one is tested more than 1.5 after \<open>l\<close>,
  each one is tested more than 1.5 after the time stored by the one before, and the time
  an emission stores is not before its test.
\<close>

fun separated :: "real \<Rightarrow> (real \<times> real) list \<Rightarrow> bool" where
  "separated l [] = True"
| "separated l ((a, b) # es) = (l + 1.5 < a \<and> a \<le> b \<and> separated b es)"

text \<open>A push-progress record for examples.\<close>

definition status_record :: pydict where
  "status_record = [(''id'', JStr ''5f70bf18a086''), (''status'', JStr ''Pushing'')]"

section \<open>run_image\<close>

text \<open>
  The Docker SDK and the socket library are outside the module. A container object holds
  \<^verbatim>\<open>attrs\<close>, the state of the container as the engine reported it when the object was
  made or last reloaded; \<^verbatim>\<open>container.status\<close> and \<^verbatim>\<open>container.attrs['State']['ExitCode']\<close>
  read that copy, which only \<^verbatim>\<open>container.reload()\<close> refreshes (the module itself reloads
  before each test of the status). The engine is a parameter: its operations act on a
  world \<open>'w\<close>. \<open>bind_port0\<close> is the port the operating system gives to a socket bound to
  port 0; \<open>logs\<close> gives the lines of the log stream and the exception that ended it, if
  one did.
\<close>

record container_attrs =
  status :: string
  exit_code :: int

record launch =
  l_image :: string
  ports :: "(string \<times> string) list"
  detach :: bool
  command :: "string list"

record 'w docker =
  bind_port0 :: "'w \<Rightarrow> nat \<times> 'w"
  containers_run :: "launch \<Rightarrow> 'w \<Rightarrow> container_attrs \<times> 'w"
  reload :: "'w \<Rightarrow> container_attrs \<times> 'w"
  sleep :: "'w \<Rightarrow> 'w"
  logs :: "'w \<Rightarrow> (string list \<times> py_error option) \<times> 'w"
  kill :: "'w \<Rightarrow> 'w"
  remove :: "'w \<Rightarrow> 'w"

datatype docker_call = FreePort | Run launch | Sleep | Reload | Logs | Kill | Remove

text \<open>
  The state of the run stage: the world, the container object's \<^verbatim>\<open>attrs\<close>, the calls made
  so far, and the log.
\<close>

record 'w run_state =
  rworld :: 'w
  attrs :: container_attrs
  rcalls :: "docker_call list"
  rlog :: "log_record list"

text \<open>
  \<^verbatim>\<open>
  def _get_free_port(self):
      s = socket.socket(socket.AF_INET, socket.SOCK_STREAM)
      s.bind(("",0))
      port = s.getsockname()[1]
      s.close()
      return port
  \<close>
\<close>

definition get_free_port :: "'w docker \<Rightarrow> 'w \<Rightarrow> nat \<times> 'w" where
  "get_free_port E w = bind_port0 E w"

text \<open>
  Lines 314 to 328, up to the return of \<^verbatim>\<open>client.containers.run\<close>:
  \<^verbatim>\<open>
  port = self._get_free_port()
  if not self.run_cmd:
      port = str(self._get_free_port())
      run_cmd = ['jupyter', 'notebook', '--ip', '0.0.0.0', '--port', port]
      ports={'%s/tcp' % port: port}
  else:
      run_cmd = self.run_cmd
      ports = {}
  container = client.containers.run(
      self.output_image_spec, ports=ports, detach=True, command=run_cmd)
  \<close>
  \<^verbatim>\<open>self.run_cmd\<close> is a list of strings, false when it is empty.
\<close>

definition launch_container ::
  "'w docker \<Rightarrow> launch \<Rightarrow> docker_call list \<Rightarrow> 'w \<Rightarrow> launch \<times> 'w run_state" where
  "launch_container E l before w =
     (case containers_run E l w of
        (a, w') \<Rightarrow> (l, \<lparr>rworld = w', attrs = a, rcalls = before @ [Run l], rlog = []\<rparr>))"

definition start_container ::
  "'w docker \<Rightarrow> string \<Rightarrow> string list \<Rightarrow> 'w \<Rightarrow> launch \<times> 'w run_state" where
  "start_container E output_image_spec cmd w =
     (case get_free_port E w of
        (port0, w1) \<Rightarrow>
          if cmd = []
          then (case get_free_port E w1 of
                  (p, w2) \<Rightarrow>
                    (let port = str p;
                         run_cmd = [''jupyter'', ''notebook'', ''--ip'', ''0.0.0.0'', ''--port'', port]
                     in launch_container E
                          \<lparr>l_image = output_image_spec, ports = [(port @ ''/tcp'', port)],
                           detach = True, command = run_cmd\<rparr>
                          [FreePort, FreePort] w2))
          else launch_container E
                 \<lparr>l_image = output_image_spec, ports = [], detach = True, command = cmd\<rparr>
                 [FreePort] w1)"

text \<open>
  \<^verbatim>\<open>
  while container.status == 'created':
      time.sleep(0.5)
      container.reload()
  \<close>
  The loop need not end; \<open>None\<close> is the loop that never ends.
\<close>

definition poll :: "'w docker \<Rightarrow> 'w run_state \<Rightarrow> 'w run_state" where
  "poll E st =
     (case reload E (sleep E (rworld st)) of
        (a, w') \<Rightarrow> st\<lparr>rworld := w', attrs := a, rcalls := rcalls st @ [Sleep, Reload]\<rparr>)"

partial_function (option) wait_created :: "'w docker \<Rightarrow> 'w run_state \<Rightarrow> 'w run_state option" where
  "wait_created E st =
     (if status (attrs st) = ''created'' then wait_created E (poll E st) else Some st)"

text \<open>
  \<^verbatim>\<open>
  try:
      for line in container.logs(stream=True):
          self.log.info(line.decode('utf-8'), extra=dict(phase='running'))
  finally:
      container.reload()
      if container.status == 'running':
          self.log.info('Stopping container...\n', extra=dict(phase='running'))
          container.kill()
      exit_code = container.attrs['State']['ExitCode']
      container.remove()
      sys.exit(exit_code)
  \<close>
  The \<^verbatim>\<open>finally\<close> block runs whether the stream ended or raised, and its \<^verbatim>\<open>sys.exit\<close>
  replaces an exception of the stream. The calls of the SDK in the block are taken to
  return.
\<close>

definition stream_logs ::  "'w docker \<Rightarrow> 'w run_state \<Rightarrow> py_error option \<times> 'w run_state" where
  "stream_logs E st =
     (case logs E (rworld st) of
        ((lines, err), w') \<Rightarrow>
          (err, st\<lparr>rworld := w', rcalls := rcalls st @ [Logs],
                    rlog := rlog st @ map (\<lambda>line. Log INFO (Text line) ''running'') lines\<rparr>))"

definition finally_block :: "'w docker \<Rightarrow> 'w run_state \<Rightarrow> py_error \<times> 'w run_state" where
  "finally_block E st =
     (case reload E (rworld st) of
        (a, w1) \<Rightarrow>
          (let st1 = st\<lparr>rworld := w1, attrs := a, rcalls := rcalls st @ [Reload]\<rparr>;
               st2 = (if status (attrs st1) = ''running''
                      then st1\<lparr>rlog := rlog st1 @
                                   [Log INFO (Text (''Stopping container...'' @ [CHR 0x0A]))
                                      ''running''],
                                 rworld := kill E (rworld st1),
                                 rcalls := rcalls st1 @ [Kill]\<rparr>
                      else st1);
               code = exit_code (attrs st2)
           in (SystemExit code,
               st2\<lparr>rworld := remove E (rworld st2), rcalls := rcalls st2 @ [Remove]\<rparr>)))"

definition stream_logs_finally :: "'w docker \<Rightarrow> 'w run_state \<Rightarrow> py_error \<times> 'w run_state" where
  "stream_logs_finally E st = (case stream_logs E st of (err, st') \<Rightarrow> finally_block E st')"

text \<open>The whole of \<^verbatim>\<open>run_image\<close>; \<open>None\<close> when the wait for the container never ends.\<close>

definition run_image ::
  "'w docker \<Rightarrow> string \<Rightarrow> string list \<Rightarrow> 'w \<Rightarrow> (py_error \<times> 'w run_state) option" where
  "run_image E output_image_spec cmd w =
     (case start_container E output_image_spec cmd w of
        (l, st) \<Rightarrow>
          (case wait_created E st of
             None \<Rightarrow> None
           | Some st' \<Rightarrow> Some (stream_logs_finally E st')))"

text \<open>
  An engine for examples. Its world is the state of the one container: status, exit
  code, and whether it has been removed. A container runs until it is killed, which
  leaves it exited with code 137 (128 + SIGKILL), or until it has already exited by
  itself. The log stream gives \<open>lines\<close> and ends with \<open>err\<close>.
\<close>

record toy_world =
  t_status :: string
  t_exit :: int
  t_removed :: bool

definition toy_engine :: "string list \<Rightarrow> py_error option \<Rightarrow> toy_world docker" where
  "toy_engine lines err =
     \<lparr>bind_port0 = (\<lambda>w. (49153, w)),
      containers_run = (\<lambda>l w. (\<lparr>status = ''created'', exit_code = 0\<rparr>, w)),
      reload = (\<lambda>w. (\<lparr>status = t_status w, exit_code = t_exit w\<rparr>, w)),
      sleep = (\<lambda>w. w),
      logs = (\<lambda>w. ((lines, err), w)),
      kill = (\<lambda>w. w\<lparr>t_status := ''exited'', t_exit := 137\<rparr>),
      remove = (\<lambda>w. w\<lparr>t_removed := True\<rparr>)\<rparr>"

text \<open>
  A second engine for examples, to tell the ports of successive calls apart: its world is
  the next port the operating system gives to a socket bound to port 0, and each such
  socket gets a new one.
\<close>

definition port_engine :: "nat docker" where
  "port_engine =
     \<lparr>bind_port0 = (\<lambda>n. (n, Suc n)),
      containers_run = (\<lambda>l n. (\<lparr>status = ''created'', exit_code = 0\<rparr>, n)),
      reload = (\<lambda>n. (\<lparr>status = ''exited'', exit_code = 0\<rparr>, n)),
      sleep = (\<lambda>n. n),
      logs = (\<lambda>n. (([], None), n)),
      kill = (\<lambda>n. n),
      remove = (\<lambda>n. n)\<rparr>"

section \<open>initialize\<close>

text \<open>
  The parsed command line, and the attributes that \<^verbatim>\<open>initialize\<close> sets on the application
  object. The set-up of the log level, the configuration file and the log handlers is
  left out. \<open>path_exists\<close> is \<^verbatim>\<open>os.path.exists\<close>, and \<open>autogenerated\<close> is the image name
  made from the repository and the time (line 278).
  \<^verbatim>\<open>
  if os.path.exists(args.repo):
      self.repo_type = 'local'
      self.repo = args.repo
      self.ref = None
      self.cleanup_checkout = False
  else:
      self.repo_type = 'remote'
      self.repo = args.repo
      self.ref = args.ref
      self.cleanup_checkout = args.clean
  ...
  if args.image_name:
      self.output_image_spec = args.image_name
  else:
      self.output_image_spec = 'r2d' + ...
  self.push = args.push
  self.run = args.run
  self.json_logs = args.json_logs
  self.build = args.build
  if not self.build:
      self.run = False
      self.push = False
  self.run_cmd = args.cmd
  \<close>
\<close>

record args =
  args_repo :: string
  args_ref :: "string option"
  args_image_name :: "string option"
  args_json_logs :: bool
  args_build :: bool
  args_run :: bool
  args_push :: bool
  args_clean :: bool
  args_cmd :: "string list"

record app =
  self_repo_type :: string
  self_repo :: string
  self_ref :: "string option"
  self_cleanup_checkout :: bool
  self_output_image_spec :: string
  self_push :: bool
  self_run :: bool
  self_json_logs :: bool
  self_build :: bool
  self_run_cmd :: "string list"

definition initialize :: "(string \<Rightarrow> bool) \<Rightarrow> (string \<Rightarrow> string) \<Rightarrow> args \<Rightarrow> app" where
  "initialize path_exists autogenerated args =
     (let is_local = path_exists (args_repo args)
      in \<lparr>self_repo_type = (if is_local then ''local'' else ''remote''),
          self_repo = args_repo args,
          self_ref = (if is_local then None else args_ref args),
          self_cleanup_checkout = (if is_local then False else args_clean args),
          self_output_image_spec =
            (case args_image_name args of
               None \<Rightarrow> autogenerated (args_repo args)
             | Some n \<Rightarrow> if n \<noteq> [] then n else autogenerated (args_repo args)),
          self_push = (if args_build args then args_push args else False),
          self_run = (if args_build args then args_run args else False),
          self_json_logs = args_json_logs args,
          self_build = args_build args,
          self_run_cmd = args_cmd args\<rparr>)"

section \<open>start\<close>

text \<open>
  The configurable traits of the application that \<^verbatim>\<open>start\<close> reads, and what \<^verbatim>\<open>start\<close>
  gets from outside. The calls of the methods \<^verbatim>\<open>self.fetch\<close>, \<^verbatim>\<open>self.push_image\<close> and
  \<^verbatim>\<open>self.run_image\<close> are given by their outcomes: \<open>Inl\<close> the exception of a call that
  raises, and for \<^verbatim>\<open>run_image\<close>, which never returns normally, the exception it ends
  with or \<open>None\<close> when it never ends. \<open>bp_name\<close>, \<open>render\<close> and \<open>build\<close> are the attribute
  \<^verbatim>\<open>name\<close> and the methods \<^verbatim>\<open>render()\<close> and \<^verbatim>\<open>build(image_spec)\<close> of a composed buildpack.
\<close>

record 'm traits =
  git_workdir :: string
  buildpacks :: "'m list list"
  default_buildpack :: "'m list"

record ('p, 'b) outside =
  uuid4 :: string
  fetch_outcome :: "string \<Rightarrow> string option \<Rightarrow> string \<Rightarrow> py_error + unit"
  chdir_outcome :: "string \<Rightarrow> py_error + unit"
  self_parent :: 'p
  bp_name :: "'b \<Rightarrow> string"
  render :: "'b \<Rightarrow> string"
  build :: "'b \<Rightarrow> string \<Rightarrow> pydict list"
  push_outcome :: "string \<Rightarrow> py_error + unit"
  run_outcome :: "string \<Rightarrow> string list \<Rightarrow> py_error option"

text \<open>
  What an invocation does, stage by stage: an event is recorded when a stage is entered,
  \<open>BuildDone\<close> when the build loop has ended without an exit, and \<open>Rmtree p\<close> for the call
  \<^verbatim>\<open>shutil.rmtree(p, ignore_errors=True)\<close>. An invocation returns, ends with an exception,
  or never ends.
\<close>

datatype stage_event =
    FetchStage | ChdirStage | PickStage | BuildStage | BuildDone | Rmtree string
  | PushStage | RunStage

datatype ending = Returned | Failed py_error | Blocked

record start_state =
  events :: "stage_event list"
  slog :: "log_record list"

text \<open>\<^verbatim>\<open>os.path.join(a, b)\<close> for a relative \<open>b\<close>.\<close>

definition path_join :: "string \<Rightarrow> string \<Rightarrow> string" where
  "path_join a b = (if a = [] \<or> last a = CHR ''/'' then a @ b else a @ ''/'' @ b)"

text \<open>
  The stages, last first.
  \<^verbatim>\<open>
  if self.run:
      self.run_image()
  \<close>
\<close>

definition run_stage :: "('p, 'b) outside \<Rightarrow> app \<Rightarrow> start_state \<Rightarrow> ending \<times> start_state" where
  "run_stage X self st =
     (if self_run self
      then (case run_outcome X (self_output_image_spec self) (self_run_cmd self) of
              None \<Rightarrow> (Blocked, st\<lparr>events := events st @ [RunStage]\<rparr>)
            | Some e \<Rightarrow> (Failed e, st\<lparr>events := events st @ [RunStage]\<rparr>))
      else (Returned, st))"

text \<open>
  \<^verbatim>\<open>
  if self.push:
      self.push_image()
  \<close>
\<close>

definition push_stage :: "('p, 'b) outside \<Rightarrow> app \<Rightarrow> start_state \<Rightarrow> ending \<times> start_state" where
  "push_stage X self st =
     (if self_push self
      then (case push_outcome X (self_output_image_spec self) of
              Inl e \<Rightarrow> (Failed e, st\<lparr>events := events st @ [PushStage]\<rparr>)
            | Inr _ \<Rightarrow> run_stage X self (st\<lparr>events := events st @ [PushStage]\<rparr>))
      else run_stage X self st)"

text \<open>
  \<^verbatim>\<open>
  if self.cleanup_checkout:
      shutil.rmtree(checkout_path, ignore_errors=True)
  \<close>
\<close>

definition cleanup_stage ::
  "('p, 'b) outside \<Rightarrow> app \<Rightarrow> string \<Rightarrow> start_state \<Rightarrow> ending \<times> start_state" where
  "cleanup_stage X self checkout_path st =
     (if self_cleanup_checkout self
      then push_stage X self (st\<lparr>events := events st @ [Rmtree checkout_path]\<rparr>)
      else push_stage X self st)"

text \<open>
  \<^verbatim>\<open>
  if self.build:
      self.log.info('Using %s builder\n', bp.name, extra=dict(phase='building'))
      for l in picked_buildpack.build(self.output_image_spec):
          ...
  \<close>
  The name logged is the one of \<^verbatim>\<open>bp\<close>, the last buildpack composed in the loop; with an
  empty catalog \<^verbatim>\<open>bp\<close> is unbound.
\<close>

definition build_stage ::
  "('p, 'b) outside \<Rightarrow> app \<Rightarrow> ('m, 'b) picking \<Rightarrow> string \<Rightarrow> start_state
     \<Rightarrow> ending \<times> start_state" where
  "build_stage X self pk checkout_path st =
     (if self_build self
      then (case bp pk of
              None \<Rightarrow> (Failed (UnboundLocalError ''bp''), st)
            | Some a \<Rightarrow>
                (let using_msg = Log INFO
                       (Text (''Using '' @ bp_name X (objects pk ! a) @ '' builder'' @ [CHR 0x0A]))
                       ''building''
                 in case build_loop
                           (build X (objects pk ! picked_buildpack pk) (self_output_image_spec self))
                           (slog st @ [using_msg]) 0 of
                      (Inl e, lg, n) \<Rightarrow>
                        (Failed e, st\<lparr>events := events st @ [BuildStage], slog := lg\<rparr>)
                    | (Inr _, lg, n) \<Rightarrow>
                        cleanup_stage X self checkout_path
                          (st\<lparr>events := events st @ [BuildStage, BuildDone], slog := lg\<rparr>)))
      else cleanup_stage X self checkout_path st)"

text \<open>
  \<^verbatim>\<open>
  os.chdir(checkout_path)
  (the picking of the buildpack, above)
  self.log.debug(picked_buildpack.render(), extra=dict(phase='building'))
  \<close>
\<close>

definition pick_stage ::
  "('m, 'p, 'b) detectors \<Rightarrow> 'm traits \<Rightarrow> ('p, 'b) outside \<Rightarrow> app \<Rightarrow> string \<Rightarrow> start_state
     \<Rightarrow> ending \<times> start_state" where
  "pick_stage D T X self checkout_path st =
     (case chdir_outcome X checkout_path of
        Inl e \<Rightarrow> (Failed e, st\<lparr>events := events st @ [ChdirStage]\<rparr>)
      | Inr _ \<Rightarrow>
          (case pick_buildpack D (self_parent X) (default_buildpack T) (buildpacks T) of
             Inl e \<Rightarrow> (Failed e, st\<lparr>events := events st @ [ChdirStage, PickStage]\<rparr>)
           | Inr pk \<Rightarrow>
               build_stage X self pk checkout_path
                 (st\<lparr>events := events st @ [ChdirStage, PickStage],
                     slog := slog st @
                       [Log DEBUG (Text (render X (objects pk ! picked_buildpack pk)))
                          ''building'']\<rparr>)))"

text \<open>
  \<^verbatim>\<open>
  if self.repo_type == 'local':
      checkout_path = self.repo
  else:
      checkout_path = os.path.join(self.git_workdir, str(uuid.uuid4()))
      self.fetch(self.repo, self.ref, checkout_path)
  \<close>
\<close>

definition start ::
  "('m, 'p, 'b) detectors \<Rightarrow> 'm traits \<Rightarrow> ('p, 'b) outside \<Rightarrow> app \<Rightarrow> ending \<times> start_state" where
  "start D T X self =
     (if self_repo_type self = ''local''
      then pick_stage D T X self (self_repo self) \<lparr>events = [], slog = []\<rparr>
      else (let checkout_path = path_join (git_workdir T) (uuid4 X)
            in case fetch_outcome X (self_repo self) (self_ref self) checkout_path of
                 Inl e \<Rightarrow> (Failed e, \<lparr>events = [FetchStage], slog = []\<rparr>)
               | Inr _ \<Rightarrow>
                   pick_stage D T X self checkout_path \<lparr>events = [FetchStage], slog = []\<rparr>))"

text \<open>
  The stages of an invocation in the order in which \<^verbatim>\<open>start\<close> enters them when none
  fails, for the statements.
\<close>

definition plan :: "app \<Rightarrow> string \<Rightarrow> stage_event list" where
  "plan self checkout_path =
     (if self_repo_type self = ''local'' then [] else [FetchStage])
     @ [ChdirStage, PickStage]
     @ (if self_build self then [BuildStage, BuildDone] else [])
     @ (if self_cleanup_checkout self then [Rmtree checkout_path] else [])
     @ (if self_push self then [PushStage] else [])
     @ (if self_run self then [RunStage] else [])"

fun is_rmtree :: "stage_event \<Rightarrow> bool" where
  "is_rmtree (Rmtree p) = True"
| "is_rmtree e = False"

text \<open>
  An invocation for examples: a remote repository at a given revision, the catalog of one
  chain, a build stream of one record without error, and the outcomes of the fetch, the
  publish and the run stage as \<open>fetch\<close>, \<open>push_image\<close> and \<open>run_image\<close> give them in the
  example worlds above (the container exits with code 3).
\<close>

definition demo_traits :: "string traits" where
  "demo_traits =
     \<lparr>git_workdir = ''/tmp'', buildpacks = [[''Base'', ''Conda'']],
      default_buildpack = [''Base'', ''Python'']\<rparr>"

definition demo_outside :: "(unit, string list) outside" where
  "demo_outside =
     \<lparr>uuid4 = ''1b4e28ba'',
      fetch_outcome = (\<lambda>url ref path.
         case ref of
           None \<Rightarrow> Inl TypeError
         | Some r \<Rightarrow>
             fst (fetch scripted False url r path
                    \<lparr>world = [True, True, True], cmds = [], flog = []\<rparr>)),
      chdir_outcome = (\<lambda>path. Inr ()),
      self_parent = (),
      bp_name = (\<lambda>b. last b),
      render = (\<lambda>b. concat b),
      build = (\<lambda>b spec. [[(''stream'', JStr ''Step 1/1'')]]),
      push_outcome = (\<lambda>spec. fst (push_image (\<lambda>k. real k) [status_record])),
      run_outcome = (\<lambda>spec cmd.
         map_option fst
           (run_image (toy_engine [] None) spec cmd
              \<lparr>t_status = ''exited'', t_exit = 3, t_removed = False\<rparr>))\<rparr>"

definition demo_args :: "bool \<Rightarrow> bool \<Rightarrow> args" where
  "demo_args with_push with_run =
     \<lparr>args_repo = ''https://example.org/repo.git'', args_ref = Some ''0a1b2c3'',
      args_image_name = Some ''r2dimage'', args_json_logs = False, args_build = True,
      args_run = with_run, args_push = with_push, args_clean = True, args_cmd = []\<rparr>"


section \<open>Properties of compose\<close>

lemma compose_loop_foldl:
  "compose_loop D parent img ms =
     foldl (\<lambda>acc m. compose_with D acc (new D m parent)) img ms"
  by (induction ms arbitrary: img) simp_all

lemma compose_loop_snoc:
  "compose_loop D parent img (ms @ [c]) =
     compose_with D (compose_loop D parent img ms) (new D c parent)"
  by (induction ms arbitrary: img) simp_all

text \<open>
  C5. For a non-empty chain \<open>a # ms\<close>, compose instantiates \<open>a\<close> with the shared parent
  and folds the remaining mixins from the left, each step calling \<open>compose_with\<close> on the
  instance built so far with the next mixin instantiated with the same parent. Appending
  a mixin \<open>c\<close> to the chain changes the result by exactly one more \<open>compose_with\<close> step at
  the end, so the chains \<open>[A, B]\<close> and \<open>[A, B, C]\<close> differ by the last extension with
  \<open>C\<close>.
\<close>

theorem compose_folds_left_to_right:
  "compose D (a # ms) parent =
     Inr (foldl (\<lambda>img m. compose_with D img (new D m parent)) (new D a parent) ms)
   \<and> (\<exists>ab. compose D (a # ms) parent = Inr ab
         \<and> compose D (a # ms @ [c]) parent = Inr (compose_with D ab (new D c parent)))
   \<and> compose D [A, B] parent = Inr (compose_with D (new D A parent) (new D B parent))
   \<and> compose D [A, B, C] parent =
       Inr (compose_with D (compose_with D (new D A parent) (new D B parent)) (new D C parent))"
  by (simp add: compose_def compose_loop_foldl)

section \<open>Properties of the selection\<close>

lemma matches_nonempty:
  "spec \<noteq> [] \<Longrightarrow>
     \<exists>b. compose D spec parent = Inr b \<and> matches D parent spec = detect D b"
  by (cases spec) (simp_all add: compose_def matches_def)

lemma pick_loop_first_match:
  assumes "\<forall>spec \<in> set catalog. spec \<noteq> []"
  shows "\<exists>st'. pick_loop D parent catalog st = Inr st'
     \<and> map Inr (objects st') =
         map Inr (objects st) @ map (\<lambda>spec. compose D spec parent) (tried_entries (matches D parent) catalog)
     \<and> calls st' =
         calls st @ expected_calls (length (objects st)) (tried_entries (matches D parent) catalog)
     \<and> picked_buildpack st' =
         (if \<exists>spec \<in> set catalog. matches D parent spec
          then length (objects st) + length (takeWhile (Not \<circ> matches D parent) catalog)
          else picked_buildpack st)"
  using assms
proof (induction catalog arbitrary: st)
  case Nil
  then show ?case by simp
next
  case (Cons spec rest)
  from Cons.prems have "spec \<noteq> []" by simp
  from matches_nonempty [OF this, of D parent]
  obtain b where b: "compose D spec parent = Inr b" "matches D parent spec = detect D b"
    by auto
  show ?case
  proof (cases "detect D b")
    case True
    with b show ?thesis by (simp add: Let_def)
  next
    case False
    let ?st = "st\<lparr>bp := Some (length (objects st)), objects := objects st @ [b],
                  calls := calls st @ [ComposeCall spec, DetectCall (length (objects st))]\<rparr>"
    from Cons.prems have "\<forall>s \<in> set rest. s \<noteq> []" by simp
    from Cons.IH [OF this, of ?st] obtain st' where
      "pick_loop D parent rest ?st = Inr st'"
      "map Inr (objects st') =
         map Inr (objects ?st) @ map (\<lambda>spec. compose D spec parent) (tried_entries (matches D parent) rest)"
      "calls st' = calls ?st @ expected_calls (length (objects ?st)) (tried_entries (matches D parent) rest)"
      "picked_buildpack st' =
         (if \<exists>spec \<in> set rest. matches D parent spec
          then length (objects ?st) + length (takeWhile (Not \<circ> matches D parent) rest)
          else picked_buildpack ?st)"
      by blast
    with b False show ?thesis by (simp add: Let_def)
  qed
qed

lemma tried_entries_eq:
  "tried_entries P xs = takeWhile (Not \<circ> P) xs @ take 1 (dropWhile (Not \<circ> P) xs)"
  by (induction xs) simp_all

lemma tried_entries_match:
  "\<exists>x \<in> set xs. P x \<Longrightarrow>
     length (takeWhile (Not \<circ> P) xs) < length (tried_entries P xs)
     \<and> find P xs = Some (tried_entries P xs ! length (takeWhile (Not \<circ> P) xs))"
  by (induction xs) auto

lemma find_no_match: "\<not> (\<exists>x \<in> set xs. P x) \<Longrightarrow> find P xs = None"
  by (induction xs) auto

text \<open>
  C1. With a non-empty default chain and non-empty catalog chains, the selection returns.
  It has composed the default and then, in catalog order, each entry up to and including
  the first whose \<^verbatim>\<open>detect()\<close> is true, calling \<^verbatim>\<open>detect()\<close> once on each of them and on
  no later entry. The picked object is the one the specification's first-match function
  gives, and it is the default's object (address 0) exactly when no catalog entry
  matches; otherwise it is the object of the first matching entry. The result is a
  function of the catalog order and of the answers of \<^verbatim>\<open>detect()\<close> alone.
\<close>

theorem pick_buildpack_first_match_wins:
  fixes D :: "('m, 'p, 'b) detectors"
  assumes "default_chain \<noteq> []" and "\<forall>spec \<in> set catalog. spec \<noteq> []"
  shows "\<exists>st. pick_buildpack D parent default_chain catalog = Inr st
     \<and> calls st = ComposeCall default_chain
           # expected_calls 1 (tried_entries (matches D parent) catalog)
     \<and> tried_entries (matches D parent) catalog =
           takeWhile (Not \<circ> matches D parent) catalog
           @ take 1 (dropWhile (Not \<circ> matches D parent) catalog)
     \<and> picked_buildpack st < length (objects st)
     \<and> Inr (objects st ! picked_buildpack st) =
           select_spec D parent default_chain catalog
     \<and> (picked_buildpack st = 0 \<longleftrightarrow> \<not> (\<exists>spec \<in> set catalog. matches D parent spec))
     \<and> ((\<exists>spec \<in> set catalog. matches D parent spec) \<longrightarrow>
           picked_buildpack st = Suc (length (takeWhile (Not \<circ> matches D parent) catalog)))"
proof -
  let ?P = "matches D parent"
  let ?tried = "tried_entries ?P catalog"
  let ?k = "length (takeWhile (Not \<circ> ?P) catalog)"
  from assms(1) obtain d where d: "compose D default_chain parent = Inr d"
    using matches_nonempty [of default_chain D parent] by auto
  let ?st0 = "\<lparr>picked_buildpack = 0, bp = None, objects = [d],
               calls = [ComposeCall default_chain]\<rparr> :: ('m, 'b) picking"
  from pick_loop_first_match [OF assms(2), of D parent ?st0] obtain st where
    run: "pick_loop D parent catalog ?st0 = Inr st"
    and objs: "map Inr (objects st) = Inr d # map (\<lambda>spec. compose D spec parent) ?tried"
    and cs: "calls st = ComposeCall default_chain # expected_calls 1 ?tried"
    and pk: "picked_buildpack st =
               (if \<exists>spec \<in> set catalog. ?P spec then Suc ?k else 0)"
    by auto
  have res: "pick_buildpack D parent default_chain catalog = Inr st"
    using d run by (simp add: pick_buildpack_def)
  from objs have len: "length (objects st) = Suc (length ?tried)"
    by (metis length_Cons length_map)
  have sel: "picked_buildpack st < length (objects st)
     \<and> Inr (objects st ! picked_buildpack st) = select_spec D parent default_chain catalog"
  proof (cases "\<exists>spec \<in> set catalog. ?P spec")
    case True
    from tried_entries_match [OF True] have k: "?k < length ?tried"
      and f: "find ?P catalog = Some (?tried ! ?k)" by simp_all
    from True pk have p: "picked_buildpack st = Suc ?k" by simp
    have "(Inr (objects st ! Suc ?k) :: py_error + 'b) = map Inr (objects st) ! Suc ?k"
      using k len by simp
    also have "\<dots> = compose D (?tried ! ?k) parent"
      unfolding objs using k by simp
    finally show ?thesis using p k len f by (simp add: select_spec_def)
  next
    case False
    with pk have p: "picked_buildpack st = 0" by simp
    have "(Inr (objects st ! 0) :: py_error + 'b) = map Inr (objects st) ! 0"
      using len by simp
    also have "\<dots> = Inr d" unfolding objs by simp
    finally show ?thesis using p len d find_no_match [OF False] by (simp add: select_spec_def)
  qed
  show ?thesis
    using res cs sel pk by (simp add: tried_entries_eq)
qed

theorem pick_buildpack_first_match_wins_witness:
  "[''Base'', ''Python''] \<noteq> []
   \<and> list_all (\<lambda>spec. spec \<noteq> [])
         [[''Docker''], [''Base'', ''Conda'', ''Julia''], [''Base'', ''Conda'']]
   \<and> pick_buildpack demo_detectors () [''Base'', ''Python'']
         [[''Docker''], [''Base'', ''Conda'', ''Julia''], [''Base'', ''Conda'']] =
       Inr \<lparr>picked_buildpack = 2, bp = Some 2,
            objects = [[''Base'', ''Python''], [''Docker''], [''Base'', ''Conda'', ''Julia'']],
            calls = [ComposeCall [''Base'', ''Python''], ComposeCall [''Docker''], DetectCall 1,
                     ComposeCall [''Base'', ''Conda'', ''Julia''], DetectCall 2]\<rparr>
   \<and> select_spec demo_detectors () [''Base'', ''Python'']
         [[''Docker''], [''Base'', ''Conda'', ''Julia''], [''Base'', ''Conda'']] =
       Inr [''Base'', ''Conda'', ''Julia'']"
proof -
  let ?default = "[''Base'', ''Python'']"
  let ?catalog = "[[''Docker''], [''Base'', ''Conda'', ''Julia''], [''Base'', ''Conda'']]"
  have h1: "?default \<noteq> []" by simp
  have h2: "\<forall>spec \<in> set ?catalog. spec \<noteq> []" by simp
  have run: "pick_buildpack demo_detectors () ?default ?catalog =
       Inr \<lparr>picked_buildpack = 2, bp = Some 2,
            objects = [[''Base'', ''Python''], [''Docker''], [''Base'', ''Conda'', ''Julia'']],
            calls = [ComposeCall [''Base'', ''Python''], ComposeCall [''Docker''], DetectCall 1,
                     ComposeCall [''Base'', ''Conda'', ''Julia''], DetectCall 2]\<rparr>"
    by (simp add: pick_buildpack_def compose_def demo_detectors_def Let_def)
  from pick_buildpack_first_match_wins [OF h1 h2, of demo_detectors "()"]
  obtain st where st: "pick_buildpack demo_detectors () ?default ?catalog = Inr st"
    and sel: "Inr (objects st ! picked_buildpack st) = select_spec demo_detectors () ?default ?catalog"
    by blast
  from st run have "st = \<lparr>picked_buildpack = 2, bp = Some 2,
            objects = [[''Base'', ''Python''], [''Docker''], [''Base'', ''Conda'', ''Julia'']],
            calls = [ComposeCall [''Base'', ''Python''], ComposeCall [''Docker''], DetectCall 1,
                     ComposeCall [''Base'', ''Conda'', ''Julia''], DetectCall 2]\<rparr>"
    by simp
  with sel have "select_spec demo_detectors () ?default ?catalog = Inr [''Base'', ''Conda'', ''Julia'']"
    by simp
  with run show ?thesis by simp
qed

section \<open>Properties of the build loop\<close>


lemma build_loop_prefix:
  "\<forall>p \<in> set pre. \<not> halts p \<Longrightarrow>
     \<exists>lg'. \<forall>rest. build_loop (pre @ rest) lg n = build_loop rest lg' (n + length pre)"
proof (induction pre arbitrary: lg n)
  case Nil
  have "\<forall>rest. build_loop ([] @ rest) lg n = build_loop rest lg (n + length ([] :: pydict list))"
    by simp
  then show ?case by blast
next
  case (Cons p pre)
  then have np: "\<not> halts p" and rest: "\<forall>q \<in> set pre. \<not> halts q" by simp_all
  have "\<exists>lg1. \<forall>rest. build_loop (p # rest) lg n = build_loop rest lg1 (Suc n)"
  proof (cases "map_of p ''stream''")
    case (Some s)
    then show ?thesis by auto
  next
    case None
    with np have "map_of p ''error'' = None" by (simp add: halts_def has_key_def)
    with None show ?thesis by (cases "has_key p ''status''") auto
  qed
  then obtain lg1 where 1: "\<And>rest. build_loop (p # rest) lg n = build_loop rest lg1 (Suc n)"
    by blast
  from Cons.IH [OF rest, of lg1 "Suc n"] obtain lg2 where
    2: "\<And>rest. build_loop (pre @ rest) lg1 (Suc n) = build_loop rest lg2 (Suc n + length pre)"
    by blast
  show ?case using 1 2 by auto
qed

lemma build_loop_no_error:
  assumes "\<forall>p \<in> set ls. \<not> halts p"
  shows "fst (build_loop ls lg n) = Inr () \<and> snd (snd (build_loop ls lg n)) = n + length ls"
proof -
  from build_loop_prefix [OF assms, of lg n] obtain lg' where
    "build_loop (ls @ []) lg n = build_loop [] lg' (n + length ls)" by blast
  then show ?thesis by simp
qed




section \<open>Properties of fetch\<close>

lemma str_50: "str 50 = ''50''"
  by (simp add: str.simps)

lemma run_logged_cmds:
  "run_logged exec c lvl st = (ok, st') \<Longrightarrow>
     ok = succeeds exec c (world st) \<and> world st' = after exec c (world st)
     \<and> cmds st' = cmds st @ [c]"
  by (auto simp: run_logged_def succeeds_def after_def split: prod.splits)

lemma clone_steps:
  "clone exec j url path (Some 50) st = (r, st') \<Longrightarrow>
     cmds st' = cmds st @ [clone_cmd j url path]
     \<and> world st' = after exec (clone_cmd j url path) (world st)
     \<and> r = (if succeeds exec (clone_cmd j url path) (world st) then Inr ()
            else Inl (RuntimeError (''Failed to clone '' @ url @ ''.'')))"
  by (auto simp: clone_def clone_cmd_def str_50 log_failed_def Let_def
      split: prod.splits bool.splits dest!: run_logged_cmds)

lemma contains_steps:
  "contains exec j path ref st = (r, st') \<Longrightarrow>
     cmds st' = cmds st @ [probe_cmd j path ref]
     \<and> world st' = after exec (probe_cmd j path ref) (world st)
     \<and> r = succeeds exec (probe_cmd j path ref) (world st)"
  by (auto simp: contains_def probe_cmd_def dest!: run_logged_cmds)

lemma unshallow_steps:
  "unshallow exec j url path st = (r, st') \<Longrightarrow>
     cmds st' = cmds st @ [unshallow_cmd j path]
     \<and> world st' = after exec (unshallow_cmd j path) (world st)
     \<and> r = (if succeeds exec (unshallow_cmd j path) (world st) then Inr ()
            else Inl (RuntimeError (''Failed to create a full clone of '' @ url @ ''.'')))"
  by (auto simp: unshallow_def unshallow_cmd_def log_failed_def
      split: prod.splits bool.splits dest!: run_logged_cmds)

lemma checkout_steps:
  "checkout exec j url path ref st = (r, st') \<Longrightarrow>
     cmds st' = cmds st @ [reset_cmd j path ref]
     \<and> world st' = after exec (reset_cmd j path ref) (world st)
     \<and> r = (if succeeds exec (reset_cmd j path ref) (world st) then Inr ()
            else Inl (RuntimeError
                   (''Failed to checkout reference '' @ ref @ '' for '' @ url @ ''.'')))"
  by (auto simp: checkout_def reset_cmd_def log_failed_def
      split: prod.splits bool.splits dest!: run_logged_cmds)

lemma fetch_cases:
  assumes "fetch exec j url ref path st0 = (res, st)"
  defines "C \<equiv> clone_cmd j url path" and "P \<equiv> probe_cmd j path ref"
    and "U \<equiv> unshallow_cmd j path" and "R \<equiv> reset_cmd j path ref"
  defines "w1 \<equiv> after exec C (world st0)"
  defines "w2 \<equiv> after exec P w1"
  defines "w3 \<equiv> after exec U w2"
  shows "(\<not> succeeds exec C (world st0) \<longrightarrow>
            cmds st = cmds st0 @ [C]
            \<and> res = Inl (RuntimeError (''Failed to clone '' @ url @ ''.'')))
       \<and> (succeeds exec C (world st0) \<and> succeeds exec P w1 \<longrightarrow>
            cmds st = cmds st0 @ [C, P, R]
            \<and> res = (if succeeds exec R w2 then Inr ()
                     else Inl (RuntimeError
                            (''Failed to checkout reference '' @ ref @ '' for '' @ url @ ''.''))))
       \<and> (succeeds exec C (world st0) \<and> \<not> succeeds exec P w1 \<and> \<not> succeeds exec U w2 \<longrightarrow>
            cmds st = cmds st0 @ [C, P, U]
            \<and> res = Inl (RuntimeError (''Failed to create a full clone of '' @ url @ ''.'')))
       \<and> (succeeds exec C (world st0) \<and> \<not> succeeds exec P w1 \<and> succeeds exec U w2 \<longrightarrow>
            cmds st = cmds st0 @ [C, P, U, R]
            \<and> res = (if succeeds exec R w3 then Inr ()
                     else Inl (RuntimeError
                            (''Failed to checkout reference '' @ ref @ '' for '' @ url @ ''.''))))"
proof -
  obtain r1 st1 where c: "clone exec j url path (Some 50) st0 = (r1, st1)"
    by (cases "clone exec j url path (Some 50) st0")
  note c' = clone_steps [OF c, folded C_def]
  show ?thesis
  proof (cases "succeeds exec C (world st0)")
    case False
    with c c' assms(1) show ?thesis by (simp add: fetch_def)
  next
    case cok: True
    obtain r2 st2 where p: "contains exec j path ref st1 = (r2, st2)"
      by (cases "contains exec j path ref st1")
    note p' = contains_steps [OF p, folded P_def]
    have w1: "world st1 = w1" using c' by (simp add: w1_def)
    have w2: "world st2 = w2" using p' w1 by (simp add: w2_def)
    show ?thesis
    proof (cases "succeeds exec P w1")
      case pok: True
      obtain r4 st4 where k: "checkout exec j url path ref st2 = (r4, st4)"
        by (cases "checkout exec j url path ref st2")
      note k' = checkout_steps [OF k, folded R_def]
      have "fetch exec j url ref path st0 = (r4, st4)"
        using c c' cok p p' pok w1 k by (simp add: fetch_def)
      with assms(1) have "res = r4" "st = st4" by simp_all
      with k' p' c' cok pok w1 w2 show ?thesis by simp
    next
      case pno: False
      obtain r3 st3 where u: "unshallow exec j url path st2 = (r3, st3)"
        by (cases "unshallow exec j url path st2")
      note u' = unshallow_steps [OF u, folded U_def]
      have w3: "world st3 = w3" using u' w2 by (simp add: w3_def)
      show ?thesis
      proof (cases "succeeds exec U w2")
        case False
        have "fetch exec j url ref path st0 = (r3, st3)"
          using c c' cok p p' pno w1 w2 u u' False by (simp add: fetch_def)
        with assms(1) have "res = r3" "st = st3" by simp_all
        with u' p' c' cok pno w1 w2 False show ?thesis by simp
      next
        case uok: True
        obtain r4 st4 where k: "checkout exec j url path ref st3 = (r4, st4)"
          by (cases "checkout exec j url path ref st3")
        note k' = checkout_steps [OF k, folded R_def]
        have "fetch exec j url ref path st0 = (r4, st4)"
          using c c' cok p p' pno w1 w2 u u' uok k by (simp add: fetch_def)
        with assms(1) have "res = r4" "st = st4" by simp_all
        with k' u' p' c' cok pno uok w1 w2 w3 show ?thesis by simp
      qed
    qed
  qed
qed

text \<open>
  C3. A fetch starts with the shallow clone of depth 50 and runs nothing else when it
  fails. When the probe \<^verbatim>\<open>git cat-file -t ref\<close> succeeds, the commands run are the clone,
  the probe and the hard reset, with no unshallow among them. When the probe fails, the
  unshallow command is run exactly once, after the probe and before the hard reset, which
  is run when the unshallow succeeded. A fetch that returns without an error has run the
  hard reset last.
\<close>

theorem fetch_shallow_then_unshallow:
  "case fetch exec j url ref path \<lparr>world = w, cmds = [], flog = []\<rparr> of
     (res, st) \<Rightarrow>
       (let C = clone_cmd j url path; P = probe_cmd j path ref;
            U = unshallow_cmd j path; R = reset_cmd j path ref;
            w1 = after exec C w; w2 = after exec P w1
        in argv C = [''git'', ''clone'', ''--depth'', ''50'', url, path]
         \<and> cmds st \<noteq> [] \<and> hd (cmds st) = C
         \<and> (\<not> succeeds exec C w \<longrightarrow> cmds st = [C])
         \<and> (succeeds exec C w \<and> succeeds exec P w1 \<longrightarrow>
               cmds st = [C, P, R] \<and> U \<notin> set (cmds st))
         \<and> (succeeds exec C w \<and> \<not> succeeds exec P w1 \<longrightarrow>
               cmds st = [C, P, U] @ (if succeeds exec U w2 then [R] else [])
               \<and> count_list (cmds st) U = 1)
         \<and> (res = Inr () \<longrightarrow> last (cmds st) = R))"
proof -
  obtain res st where f: "fetch exec j url ref path \<lparr>world = w, cmds = [], flog = []\<rparr> = (res, st)"
    by (cases "fetch exec j url ref path \<lparr>world = w, cmds = [], flog = []\<rparr>")
  have neq: "unshallow_cmd j path \<noteq> clone_cmd j url path"
    "unshallow_cmd j path \<noteq> probe_cmd j path ref"
    "unshallow_cmd j path \<noteq> reset_cmd j path ref"
    by (simp_all add: unshallow_cmd_def clone_cmd_def probe_cmd_def reset_cmd_def)
  have a: "argv (clone_cmd j url path) = [''git'', ''clone'', ''--depth'', ''50'', url, path]"
    by (simp add: clone_cmd_def)
  from fetch_cases [OF f] neq a f show ?thesis
    by (cases "succeeds exec (clone_cmd j url path) w";
        cases "succeeds exec (probe_cmd j path ref) (after exec (clone_cmd j url path) w)";
        cases "succeeds exec (unshallow_cmd j path)
                 (after exec (probe_cmd j path ref) (after exec (clone_cmd j url path) w))")
       (simp_all add: Let_def split: if_splits)
qed

theorem fetch_shallow_then_unshallow_witness:
  "fetch scripted False ''https://example.org/repo.git'' ''0a1b2c3'' ''/tmp/co''
      \<lparr>world = [True, False, True, True], cmds = [], flog = []\<rparr> =
     (Inr (),
      \<lparr>world = [],
       cmds = [clone_cmd False ''https://example.org/repo.git'' ''/tmp/co'',
               probe_cmd False ''/tmp/co'' ''0a1b2c3'',
               unshallow_cmd False ''/tmp/co'',
               reset_cmd False ''/tmp/co'' ''0a1b2c3''],
       flog = []\<rparr>)
   \<and> succeeds scripted (clone_cmd False ''https://example.org/repo.git'' ''/tmp/co'')
        [True, False, True, True]
   \<and> \<not> succeeds scripted (probe_cmd False ''/tmp/co'' ''0a1b2c3'')
        (after scripted (clone_cmd False ''https://example.org/repo.git'' ''/tmp/co'')
           [True, False, True, True])
   \<and> count_list
        (cmds (snd (fetch scripted False ''https://example.org/repo.git'' ''0a1b2c3'' ''/tmp/co''
                      \<lparr>world = [True, False, True, True], cmds = [], flog = []\<rparr>)))
        (unshallow_cmd False ''/tmp/co'') = 1
   \<and> succeeds scripted (probe_cmd False ''/tmp/co'' ''0a1b2c3'')
        (after scripted (clone_cmd False ''https://example.org/repo.git'' ''/tmp/co'')
           [True, True, True])
   \<and> cmds (snd (fetch scripted False ''https://example.org/repo.git'' ''0a1b2c3'' ''/tmp/co''
                   \<lparr>world = [True, True, True], cmds = [], flog = []\<rparr>)) =
       [clone_cmd False ''https://example.org/repo.git'' ''/tmp/co'',
        probe_cmd False ''/tmp/co'' ''0a1b2c3'',
        reset_cmd False ''/tmp/co'' ''0a1b2c3'']"
proof -
  have run: "fetch scripted False ''https://example.org/repo.git'' ''0a1b2c3'' ''/tmp/co''
      \<lparr>world = [True, False, True, True], cmds = [], flog = []\<rparr> =
     (Inr (),
      \<lparr>world = [],
       cmds = [clone_cmd False ''https://example.org/repo.git'' ''/tmp/co'',
               probe_cmd False ''/tmp/co'' ''0a1b2c3'',
               unshallow_cmd False ''/tmp/co'',
               reset_cmd False ''/tmp/co'' ''0a1b2c3''],
       flog = []\<rparr>)"
    by (simp add: fetch_def clone_def contains_def unshallow_def checkout_def run_logged_def
        str_50 clone_cmd_def probe_cmd_def unshallow_cmd_def reset_cmd_def)
  have c: "succeeds scripted (clone_cmd False ''https://example.org/repo.git'' ''/tmp/co'')
        [True, False, True, True]"
    by (simp add: succeeds_def)
  have p: "\<not> succeeds scripted (probe_cmd False ''/tmp/co'' ''0a1b2c3'')
        (after scripted (clone_cmd False ''https://example.org/repo.git'' ''/tmp/co'')
           [True, False, True, True])"
    by (simp add: succeeds_def after_def)
  let ?f = "fetch scripted False ''https://example.org/repo.git'' ''0a1b2c3'' ''/tmp/co''
              \<lparr>world = [True, False, True, True], cmds = [], flog = []\<rparr>"
  obtain res st where f: "?f = (res, st)" by (cases ?f)
  from fetch_shallow_then_unshallow
         [where exec = scripted and j = False and url = "''https://example.org/repo.git''"
            and ref = "''0a1b2c3''" and path = "''/tmp/co''" and w = "[True, False, True, True]"]
  have "count_list (cmds st) (unshallow_cmd False ''/tmp/co'') = 1"
    unfolding f using c p
    by (simp add: Let_def succeeds_def after_def clone_cmd_def probe_cmd_def
        unshallow_cmd_def reset_cmd_def)
  with f have n: "count_list (cmds (snd ?f)) (unshallow_cmd False ''/tmp/co'') = 1"
    by simp
  let ?g = "fetch scripted False ''https://example.org/repo.git'' ''0a1b2c3'' ''/tmp/co''
              \<lparr>world = [True, True, True], cmds = [], flog = []\<rparr>"
  have c': "succeeds scripted (clone_cmd False ''https://example.org/repo.git'' ''/tmp/co'')
        [True, True, True]"
    by (simp add: succeeds_def)
  have p': "succeeds scripted (probe_cmd False ''/tmp/co'' ''0a1b2c3'')
        (after scripted (clone_cmd False ''https://example.org/repo.git'' ''/tmp/co'')
           [True, True, True])"
    by (simp add: succeeds_def after_def)
  obtain res' st' where g: "?g = (res', st')" by (cases ?g)
  from fetch_shallow_then_unshallow
         [where exec = scripted and j = False and url = "''https://example.org/repo.git''"
            and ref = "''0a1b2c3''" and path = "''/tmp/co''" and w = "[True, True, True]"]
  have "cmds st' = [clone_cmd False ''https://example.org/repo.git'' ''/tmp/co'',
                    probe_cmd False ''/tmp/co'' ''0a1b2c3'',
                    reset_cmd False ''/tmp/co'' ''0a1b2c3'']"
    unfolding g Let_def using c' p' by simp
  with g have q: "cmds (snd ?g) = [clone_cmd False ''https://example.org/repo.git'' ''/tmp/co'',
                    probe_cmd False ''/tmp/co'' ''0a1b2c3'',
                    reset_cmd False ''/tmp/co'' ''0a1b2c3'']"
    by simp
  from run c p n p' q show ?thesis by blast
qed

lemma fetch_cmds_distinct:
  "distinct [clone_cmd j url path, probe_cmd j path ref, unshallow_cmd j path,
             reset_cmd j path ref]"
  by (simp add: clone_cmd_def probe_cmd_def unshallow_cmd_def reset_cmd_def)

lemma checkout_message_parts:
  "sublist ref (''Failed to checkout reference '' @ ref @ '' for '' @ url @ ''.'')
   \<and> sublist url (''Failed to checkout reference '' @ ref @ '' for '' @ url @ ''.'')"
proof
  show "sublist ref (''Failed to checkout reference '' @ ref @ '' for '' @ url @ ''.'')"
    by (rule sublist_appendI)
  have "sublist url ((''Failed to checkout reference '' @ ref @ '' for '') @ url @ ''.'')"
    by (rule sublist_appendI)
  then show "sublist url (''Failed to checkout reference '' @ ref @ '' for '' @ url @ ''.'')"
    by simp
qed

text \<open>
  C8, as the code has it. A failing clone, unshallow or hard reset ends the fetch with a
  \<^verbatim>\<open>RuntimeError\<close>, the failed command being the last one run, and no command is run
  twice. Every such message includes the source location. The messages of the clone and
  the unshallow failure are built from the source location alone; the message of the
  checkout failure includes the revision as well.
\<close>

theorem fetch_failure_fatal_with_location:
  "case fetch exec j url ref path \<lparr>world = w, cmds = [], flog = []\<rparr> of
     (res, st) \<Rightarrow>
       (let C = clone_cmd j url path; P = probe_cmd j path ref;
            U = unshallow_cmd j path; R = reset_cmd j path ref;
            w1 = after exec C w; w2 = after exec P w1; w3 = after exec U w2;
            reset_failed = (succeeds exec C w \<and>
               (if succeeds exec P w1 then \<not> succeeds exec R w2
                else succeeds exec U w2 \<and> \<not> succeeds exec R w3))
        in distinct (cmds st)
         \<and> (\<not> succeeds exec C w \<longrightarrow>
               res = Inl (RuntimeError (''Failed to clone '' @ url @ ''.''))
               \<and> last (cmds st) = C)
         \<and> (succeeds exec C w \<and> \<not> succeeds exec P w1 \<and> \<not> succeeds exec U w2 \<longrightarrow>
               res = Inl (RuntimeError (''Failed to create a full clone of '' @ url @ ''.''))
               \<and> last (cmds st) = U)
         \<and> (reset_failed \<longrightarrow>
               res = Inl (RuntimeError
                      (''Failed to checkout reference '' @ ref @ '' for '' @ url @ ''.''))
               \<and> last (cmds st) = R
               \<and> sublist ref (''Failed to checkout reference '' @ ref @ '' for '' @ url @ ''.''))
         \<and> (\<forall>e. res = Inl e \<longrightarrow> (\<exists>msg. e = RuntimeError msg \<and> sublist url msg)))"
proof -
  obtain res st where f: "fetch exec j url ref path \<lparr>world = w, cmds = [], flog = []\<rparr> = (res, st)"
    by (cases "fetch exec j url ref path \<lparr>world = w, cmds = [], flog = []\<rparr>")
  have m1: "sublist url (''Failed to clone '' @ url @ ''.'')"
    by (rule sublist_appendI)
  have m2: "sublist url (''Failed to create a full clone of '' @ url @ ''.'')"
    by (rule sublist_appendI)
  note d = fetch_cmds_distinct [of j url path ref]
  from fetch_cases [OF f] f m1 m2 checkout_message_parts [of ref url] d show ?thesis
    by (cases "succeeds exec (clone_cmd j url path) w";
        cases "succeeds exec (probe_cmd j path ref) (after exec (clone_cmd j url path) w)";
        cases "succeeds exec (unshallow_cmd j path)
                 (after exec (probe_cmd j path ref) (after exec (clone_cmd j url path) w))")
       (simp_all add: Let_def split: if_splits)
qed

theorem fetch_failure_fatal_with_location_witness:
  "fetch scripted False ''https://example.org/repo.git'' ''0a1b2c3'' ''/tmp/co''
      \<lparr>world = [True, True, False], cmds = [], flog = []\<rparr> =
     (Inl (RuntimeError
        ''Failed to checkout reference 0a1b2c3 for https://example.org/repo.git.''),
      \<lparr>world = [],
       cmds = [clone_cmd False ''https://example.org/repo.git'' ''/tmp/co'',
               probe_cmd False ''/tmp/co'' ''0a1b2c3'',
               reset_cmd False ''/tmp/co'' ''0a1b2c3''],
       flog = [Log ERROR (Text ''Failed to check out ref 0a1b2c3'') ''failed'']\<rparr>)
   \<and> sublist ''https://example.org/repo.git''
        ''Failed to checkout reference 0a1b2c3 for https://example.org/repo.git.''"
proof -
  let ?f = "fetch scripted False ''https://example.org/repo.git'' ''0a1b2c3'' ''/tmp/co''
              \<lparr>world = [True, True, False], cmds = [], flog = []\<rparr>"
  have run: "?f =
     (Inl (RuntimeError
        ''Failed to checkout reference 0a1b2c3 for https://example.org/repo.git.''),
      \<lparr>world = [],
       cmds = [clone_cmd False ''https://example.org/repo.git'' ''/tmp/co'',
               probe_cmd False ''/tmp/co'' ''0a1b2c3'',
               reset_cmd False ''/tmp/co'' ''0a1b2c3''],
       flog = [Log ERROR (Text ''Failed to check out ref 0a1b2c3'') ''failed'']\<rparr>)"
    by (simp add: fetch_def clone_def contains_def unshallow_def checkout_def run_logged_def
        log_failed_def str_50 clone_cmd_def probe_cmd_def unshallow_cmd_def reset_cmd_def)
  from fetch_failure_fatal_with_location
         [where exec = scripted and j = False and url = "''https://example.org/repo.git''"
            and ref = "''0a1b2c3''" and path = "''/tmp/co''" and w = "[True, True, False]"]
  have "\<forall>e. fst ?f = Inl e \<longrightarrow>
          (\<exists>msg. e = RuntimeError msg \<and> sublist ''https://example.org/repo.git'' msg)"
    by (simp add: Let_def split: prod.splits)
  with run show ?thesis by simp
qed

text \<open>
  A failing clone raises \<^verbatim>\<open>RuntimeError("Failed to clone %s." % url)\<close>: the revision is
  not in the message.
\<close>

theorem fetch_clone_failure_counterexample:
  "fetch scripted False ''https://example.org/repo.git'' ''0a1b2c3'' ''/tmp/co''
      \<lparr>world = [False], cmds = [], flog = []\<rparr> =
     (Inl (RuntimeError ''Failed to clone https://example.org/repo.git.''),
      \<lparr>world = [],
       cmds = [clone_cmd False ''https://example.org/repo.git'' ''/tmp/co''],
       flog = [Log ERROR (Text ''Failed to clone repository!'') ''failed'']\<rparr>)
   \<and> \<not> sublist ''0a1b2c3'' ''Failed to clone https://example.org/repo.git.''"
  by (simp add: fetch_def clone_def run_logged_def log_failed_def str_50 clone_cmd_def
      sublist_code)

section \<open>Properties of push_image\<close>

lemma push_loop_separated:
  assumes "mono clock" and "last_emit_time st \<le> clock (ticks st)"
  shows "\<exists>new. emitted (snd (push_loop clock records st)) = emitted st @ new
           \<and> separated (last_emit_time st) new"
  using assms(2)
proof (induction records arbitrary: st)
  case Nil
  then show ?case by simp
next
  case (Cons progress rest)
  show ?case
  proof (cases "map_of progress ''error''")
    case (Some e)
    then show ?thesis by simp
  next
    case noerr: None
    show ?thesis
    proof (cases "map_of progress ''id''")
      case None
      with noerr Cons show ?thesis by simp
    next
      case (Some i)
      show ?thesis
      proof (cases "update_layers (layers st) progress i")
        case (Inl err)
        with noerr Some show ?thesis by simp
      next
        case (Inr layers')
        let ?now = "clock (ticks st)"
        let ?t2 = "clock (Suc (ticks st))"
        have le1: "?now \<le> ?t2" and le2: "?t2 \<le> clock (Suc (Suc (ticks st)))"
          using assms(1) by (simp_all add: mono_def)
        show ?thesis
        proof (cases "?now - last_emit_time st > 1.5")
          case True
          let ?st2 = "st\<lparr>layers := layers', ticks := Suc (ticks st),
                plog := plog st @ [LogProgress INFO (Text (''Pushing image'' @ [CHR 0x0A]))
                                ''pushing'' layers'],
                last_emit_time := ?t2, ticks := Suc (Suc (ticks st)),
                emitted := emitted st @ [(?now, ?t2)]\<rparr>"
          have run: "push_loop clock (progress # rest) st = push_loop clock rest ?st2"
            using noerr Some Inr True by (simp add: Let_def)
          have "last_emit_time ?st2 \<le> clock (ticks ?st2)" using le2 by simp
          from Cons.IH [OF this] obtain new where
            "emitted (snd (push_loop clock rest ?st2)) = emitted ?st2 @ new"
            "separated (last_emit_time ?st2) new" by blast
          then have "emitted (snd (push_loop clock rest ?st2)) = emitted st @ ((?now, ?t2) # new)"
            and "separated (last_emit_time st) ((?now, ?t2) # new)"
            using True le1 by simp_all
          with run show ?thesis by metis
        next
          case False
          let ?st1 = "st\<lparr>layers := layers', ticks := Suc (ticks st)\<rparr>"
          have run: "push_loop clock (progress # rest) st = push_loop clock rest ?st1"
            using noerr Some Inr False by (simp add: Let_def)
          have "last_emit_time ?st1 \<le> clock (ticks ?st1)"
            using Cons.prems le1 by simp
          from Cons.IH [OF this] run show ?thesis by simp
        qed
      qed
    qed
  qed
qed

lemma separated_bounds:
  "separated l es \<Longrightarrow> (a, b) \<in> set es \<Longrightarrow> l + 1.5 < a \<and> a \<le> b"
proof (induction es arbitrary: l)
  case Nil
  then show ?case by simp
next
  case (Cons e es)
  obtain a' b' where e: "e = (a', b')" by (cases e)
  from Cons.prems e have s: "l + 1.5 < a'" "a' \<le> b'" "separated b' es" by simp_all
  show ?case
  proof (cases "(a, b) = e")
    case True
    with e s show ?thesis by simp
  next
    case False
    with Cons.prems have "(a, b) \<in> set es" by simp
    from Cons.IH [OF s(3) this] s show ?thesis by simp
  qed
qed

lemma separated_nth:
  "separated l es \<Longrightarrow> i < j \<Longrightarrow> j < length es \<Longrightarrow> snd (es ! i) + 1.5 < fst (es ! j)"
proof (induction es arbitrary: l i j)
  case Nil
  then show ?case by simp
next
  case (Cons e es)
  obtain a' b' where e: "e = (a', b')" by (cases e)
  from Cons.prems e have s: "separated b' es" by simp
  from Cons.prems obtain j' where j: "j = Suc j'" "j' < length es" by (cases j) simp_all
  show ?case
  proof (cases i)
    case 0
    from j have "es ! j' \<in> set es" by simp
    with separated_bounds [OF s, of "fst (es ! j')" "snd (es ! j')"]
    have "b' + 1.5 < fst (es ! j')" by simp
    with 0 j e show ?thesis by simp
  next
    case (Suc i')
    with Cons.prems j have "i' < j'" by simp
    from Cons.IH [OF s this j(2)] Suc j show ?thesis by simp
  qed
qed

lemma separated_window:
  "separated l es \<Longrightarrow> length (filter (\<lambda>(a, b). t \<le> a \<and> a \<le> t + 1.5) es) \<le> 1"
proof (induction es arbitrary: l)
  case Nil
  then show ?case by simp
next
  case (Cons e es)
  obtain a' b' where e: "e = (a', b')" by (cases e)
  from Cons.prems e have s: "a' \<le> b'" "separated b' es" by simp_all
  show ?case
  proof (cases "t \<le> a' \<and> a' \<le> t + 1.5")
    case False
    with e Cons.IH [OF s(2)] show ?thesis by auto
  next
    case True
    have "filter (\<lambda>(a, b). t \<le> a \<and> a \<le> t + 1.5) es = []"
    proof -
      have "\<And>a b. (a, b) \<in> set es \<Longrightarrow> \<not> (t \<le> a \<and> a \<le> t + 1.5)"
      proof -
        fix a b assume "(a, b) \<in> set es"
        from separated_bounds [OF s(2) this] True s(1)
        show "\<not> (t \<le> a \<and> a \<le> t + 1.5)" by simp
      qed
      then show ?thesis by (auto simp: filter_empty_conv)
    qed
    with e True show ?thesis by simp
  qed
qed

lemma push_loop_emitted_readings:
  "\<forall>(a, b) \<in> set (emitted st). \<exists>k. a = clock k \<and> b = clock (Suc k) \<Longrightarrow>
   \<forall>(a, b) \<in> set (emitted (snd (push_loop clock records st))).
      \<exists>k. a = clock k \<and> b = clock (Suc k)"
proof (induction records arbitrary: st)
  case Nil
  then show ?case by simp
next
  case (Cons progress rest)
  show ?case
  proof (cases "map_of progress ''error''")
    case (Some e)
    with Cons.prems show ?thesis by simp
  next
    case noerr: None
    show ?thesis
    proof (cases "map_of progress ''id''")
      case None
      with noerr Cons show ?thesis by simp
    next
      case (Some i)
      show ?thesis
      proof (cases "update_layers (layers st) progress i")
        case (Inl err)
        with noerr Some Cons.prems show ?thesis by simp
      next
        case (Inr layers')
        let ?st1 = "st\<lparr>layers := layers', ticks := Suc (ticks st)\<rparr>"
        let ?st2 = "?st1\<lparr>plog := plog ?st1 @
                             [LogProgress INFO (Text (''Pushing image'' @ [CHR 0x0A]))
                                ''pushing'' layers'],
                           last_emit_time := clock (ticks ?st1),
                           ticks := Suc (ticks ?st1),
                           emitted := emitted ?st1 @ [(clock (ticks st), clock (ticks ?st1))]\<rparr>"
        have 1: "\<forall>(a, b) \<in> set (emitted ?st1). \<exists>k. a = clock k \<and> b = clock (Suc k)"
          using Cons.prems by simp
        have 2: "\<forall>(a, b) \<in> set (emitted ?st2). \<exists>k. a = clock k \<and> b = clock (Suc k)"
          using Cons.prems by auto
        show ?thesis
        proof (cases "clock (ticks st) - last_emit_time st > 1.5")
          case True
          then have "push_loop clock (progress # rest) st = push_loop clock rest ?st2"
            using noerr Some Inr by (simp add: Let_def)
          with Cons.IH [OF 2] show ?thesis by simp
        next
          case False
          then have "push_loop clock (progress # rest) st = push_loop clock rest ?st1"
            using noerr Some Inr by (simp add: Let_def)
          with Cons.IH [OF 1] show ?thesis by simp
        qed
      qed
    qed
  qed
qed

text \<open>
  C6. With a clock whose readings do not go back, every emission of the snapshot is
  tested more than 1.5 seconds after the time stored by the emission before it (and the
  first one more than 1.5 seconds after the start of the push), whatever the number of
  records in between. Hence no two emissions are tested within one window of 1.5
  seconds, and a burst of records whose readings all lie within 0.1 seconds of the start
  emits nothing, however many records it has.
\<close>

theorem push_image_emission_throttled:
  assumes "mono clock"
  shows "let es = emitted (snd (push_image clock records))
         in separated (clock 0) es
          \<and> (\<forall>i j. i < j \<and> j < length es \<longrightarrow> snd (es ! i) + 1.5 < fst (es ! j))
          \<and> (\<forall>t. length (filter (\<lambda>(a, b). t \<le> a \<and> a \<le> t + 1.5) es) \<le> 1)
          \<and> (100 < length records \<and> (\<forall>k. clock k \<le> clock 0 + 0.1) \<longrightarrow> length es \<le> 1)"
proof -
  let ?st0 = "\<lparr>layers = [], last_emit_time = clock 0, ticks = 1, plog = [], emitted = []\<rparr>"
  let ?es = "emitted (snd (push_image clock records))"
  have "last_emit_time ?st0 \<le> clock (ticks ?st0)"
    using assms by (simp add: mono_def)
  from push_loop_separated [OF assms this, of records]
  have sep: "separated (clock 0) ?es" by (simp add: push_image_def)
  have "\<forall>(a, b) \<in> set (emitted ?st0). \<exists>k. a = clock k \<and> b = clock (Suc k)" by simp
  from push_loop_emitted_readings [OF this, of records]
  have rd: "\<forall>(a, b) \<in> set ?es. \<exists>k. a = clock k \<and> b = clock (Suc k)"
    by (simp add: push_image_def)
  have burst: "?es = []" if b: "\<forall>k. clock k \<le> clock 0 + 0.1"
  proof (rule ccontr)
    assume "?es \<noteq> []"
    then obtain a b' where ab: "(a, b') \<in> set ?es" by (cases ?es) auto
    from separated_bounds [OF sep ab] have "clock 0 + 1.5 < a" by simp
    moreover from rd ab obtain k where "a = clock k" by auto
    ultimately show False using b [rule_format, of k] by simp
  qed
  have nth: "\<forall>i j. i < j \<and> j < length ?es \<longrightarrow> snd (?es ! i) + 1.5 < fst (?es ! j)"
    using separated_nth [OF sep] by blast
  have win: "\<forall>t. length (filter (\<lambda>(a, b). t \<le> a \<and> a \<le> t + 1.5) ?es) \<le> 1"
    using separated_window [OF sep] by blast
  show ?thesis
    unfolding Let_def using sep nth win burst by simp
qed

theorem push_image_emission_throttled_witness:
  "mono (\<lambda>k. real k)
   \<and> emitted (snd (push_image (\<lambda>k. real k)
        [status_record, status_record, status_record, status_record])) = [(2, 3), (5, 6)]
   \<and> (3::real) + 1.5 < 5
   \<and> mono (\<lambda>k. min (real k / 2000) (1 / 10))
   \<and> 100 < length (replicate 101 status_record)
   \<and> (\<forall>k. min (real k / 2000) (1 / 10) \<le> min (real 0 / 2000) (1 / 10) + 0.1)
   \<and> length (emitted (snd (push_image (\<lambda>k. min (real k / 2000) (1 / 10))
                              (replicate 101 status_record)))) \<le> 1"
proof -
  let ?rs = "[status_record, status_record, status_record, status_record]"
  have m: "mono (\<lambda>k. real k)" by (simp add: mono_def)
  have run: "emitted (snd (push_image (\<lambda>k. real k) ?rs)) = [(2, 3), (5, 6)]"
    by (simp add: push_image_def status_record_def update_layers_def store_status_def
        getitem_def setitem_def key_eq_def Let_def)
  from push_image_emission_throttled [OF m, of ?rs]
  have "\<forall>i j. i < j \<and> j < length (emitted (snd (push_image (\<lambda>k. real k) ?rs))) \<longrightarrow>
          snd (emitted (snd (push_image (\<lambda>k. real k) ?rs)) ! i) + 1.5
            < fst (emitted (snd (push_image (\<lambda>k. real k) ?rs)) ! j)"
    by (simp add: Let_def)
  from this [rule_format, of 0 1] run have sep: "(3::real) + 1.5 < 5" by simp
  let ?c = "\<lambda>k. min (real k / 2000) (1 / 10)"
  have m': "mono ?c"
    by (auto simp: mono_def min_def divide_right_mono)
  have len: "100 < length (replicate 101 status_record)" by simp
  have near: "\<forall>k. ?c k \<le> ?c 0 + 0.1" by (simp add: min_def)
  from push_image_emission_throttled [OF m', of "replicate 101 status_record"] len near
  have burst: "length (emitted (snd (push_image ?c (replicate 101 status_record)))) \<le> 1"
    unfolding Let_def by blast
  from m run sep m' len near burst show ?thesis by blast
qed

section \<open>The update of the snapshot\<close>

lemma map_of_without_status:
  "k \<noteq> ''status'' \<Longrightarrow> map_of (filter (\<lambda>(k', v). k' \<noteq> ''status'') d) k = map_of d k"
  by (induction d) auto

text \<open>
  C9. For a record with an \<^verbatim>\<open>id\<close> and no \<^verbatim>\<open>error\<close>: when it has no truthy
  \<^verbatim>\<open>progressDetail\<close>, the update stores \<^verbatim>\<open>progress['status']\<close>, and when the \<^verbatim>\<open>status\<close> key
  is missing the publisher ends with \<^verbatim>\<open>KeyError('status')\<close>, which is not the
  \<^verbatim>\<open>sys.exit(1)\<close> of a reported failure, and logs nothing. When it has a truthy
  \<^verbatim>\<open>progressDetail\<close>, the update stores that and is the same with the \<^verbatim>\<open>status\<close> key
  taken out of the record.
\<close>

theorem update_layers_reads_status:
  assumes "map_of progress ''id'' = Some i" and "map_of progress ''error'' = None"
  shows "(\<not> (\<exists>d. map_of progress ''progressDetail'' = Some d \<and> truthy d) \<longrightarrow>
            update_layers L progress i =
              (case map_of progress ''status'' of
                 None \<Rightarrow> Inl (KeyError ''status'')
               | Some s \<Rightarrow> setitem L i s)
            \<and> (map_of progress ''status'' = None \<longrightarrow>
                 push_loop clock (progress # rest) st = (Inl (KeyError ''status''), st)
                 \<and> KeyError ''status'' \<noteq> SystemExit 1))
       \<and> (\<forall>d. map_of progress ''progressDetail'' = Some d \<and> truthy d \<longrightarrow>
            update_layers L progress i = setitem L i d
            \<and> update_layers L (filter (\<lambda>(k, v). k \<noteq> ''status'') progress) i = setitem L i d)"
proof -
  have a: "update_layers L' progress i =
             (case map_of progress ''status'' of
                None \<Rightarrow> Inl (KeyError ''status'')
              | Some s \<Rightarrow> setitem L' i s)"
    if "\<not> (\<exists>d. map_of progress ''progressDetail'' = Some d \<and> truthy d)" for L'
    using that
    by (auto simp: update_layers_def store_status_def getitem_def split: option.splits)
  have b: "push_loop clock (progress # rest) st = (Inl (KeyError ''status''), st)"
    if "\<not> (\<exists>d. map_of progress ''progressDetail'' = Some d \<and> truthy d)"
      and "map_of progress ''status'' = None"
    using a [OF that(1), of "layers st"] that(2) assms by simp
  have c: "update_layers L progress i = setitem L i d
         \<and> update_layers L (filter (\<lambda>(k, v). k \<noteq> ''status'') progress) i = setitem L i d"
    if "map_of progress ''progressDetail'' = Some d" and "truthy d" for d
    using that by (simp add: update_layers_def map_of_without_status)
  show ?thesis using a b c by blast
qed

theorem update_layers_reads_status_witness:
  "map_of [(''id'', JStr ''5f70bf18a086''), (''progressDetail'', JObj [])] ''id''
     = Some (JStr ''5f70bf18a086'')
   \<and> map_of [(''id'', JStr ''5f70bf18a086''), (''progressDetail'', JObj [])] ''error'' = None
   \<and> push_loop (\<lambda>k. real k)
        [[(''id'', JStr ''5f70bf18a086''), (''progressDetail'', JObj [])], status_record]
        \<lparr>layers = [], last_emit_time = 0, ticks = 1, plog = [], emitted = []\<rparr> =
       (Inl (KeyError ''status''),
        \<lparr>layers = [], last_emit_time = 0, ticks = 1, plog = [], emitted = []\<rparr>)
   \<and> update_layers []
        [(''id'', JStr ''5f70bf18a086''), (''progressDetail'', JObj [(''current'', JNum 512)])]
        (JStr ''5f70bf18a086'') =
       Inr [(JStr ''5f70bf18a086'', JObj [(''current'', JNum 512)])]"
proof -
  let ?p = "[(''id'', JStr ''5f70bf18a086''), (''progressDetail'', JObj [])]"
  let ?q = "[(''id'', JStr ''5f70bf18a086''), (''progressDetail'', JObj [(''current'', JNum 512)])]"
  have h1: "map_of ?p ''id'' = Some (JStr ''5f70bf18a086'')" by simp
  have h2: "map_of ?p ''error'' = None" by simp
  have h3: "\<not> (\<exists>d. map_of ?p ''progressDetail'' = Some d \<and> truthy d)" by simp
  have h4: "map_of ?p ''status'' = None" by simp
  from update_layers_reads_status [OF h1 h2, of "[]" "\<lambda>k. real k" "[status_record]"
      "\<lparr>layers = [], last_emit_time = 0, ticks = 1, plog = [], emitted = []\<rparr>"] h3 h4
  have a: "push_loop (\<lambda>k. real k) [?p, status_record]
        \<lparr>layers = [], last_emit_time = 0, ticks = 1, plog = [], emitted = []\<rparr> =
       (Inl (KeyError ''status''),
        \<lparr>layers = [], last_emit_time = 0, ticks = 1, plog = [], emitted = []\<rparr>)"
    by blast
  have g1: "map_of ?q ''id'' = Some (JStr ''5f70bf18a086'')" by simp
  have g2: "map_of ?q ''error'' = None" by simp
  have g3: "map_of ?q ''progressDetail'' = Some (JObj [(''current'', JNum 512)])
            \<and> truthy (JObj [(''current'', JNum 512)])" by simp
  from update_layers_reads_status [OF g1 g2, of "[]"] g3
  have "update_layers [] ?q (JStr ''5f70bf18a086'') =
          setitem [] (JStr ''5f70bf18a086'') (JObj [(''current'', JNum 512)])"
    by blast
  then have b: "update_layers [] ?q (JStr ''5f70bf18a086'') =
       Inr [(JStr ''5f70bf18a086'', JObj [(''current'', JNum 512)])]"
    by (simp add: setitem_def)
  from h1 h2 a b show ?thesis by blast
qed

section \<open>Properties of run_image\<close>

lemma finally_block_removes:
  "case finally_block E st of
     (err, st') \<Rightarrow>
       err = SystemExit (exit_code (fst (reload E (rworld st))))
       \<and> rcalls st' =
           rcalls st @ Reload # (if status (fst (reload E (rworld st))) = ''running''
                                 then [Kill, Remove] else [Remove])
       \<and> attrs st' = fst (reload E (rworld st))"
  by (simp add: finally_block_def Let_def split: prod.splits)

text \<open>
  What the launch does, for every engine. A socket is bound to port 0 first, whatever the
  command. With an explicit command the container is then run with an empty port mapping
  and that command. Without one a second socket is bound to port 0; its port \<open>p\<close> is
  published from the container port \<open>p/tcp\<close> to the host port \<open>p\<close>, and the notebook
  command gets \<open>--port p\<close>. The container object holds what \<^verbatim>\<open>containers.run\<close> returned.
\<close>

lemma start_container_launch:
  "start_container E output_image_spec cmd w =
     (case bind_port0 E w of
        (port0, w1) \<Rightarrow>
          if cmd \<noteq> []
          then (let l = \<lparr>l_image = output_image_spec, ports = [], detach = True,
                         command = cmd\<rparr>
                in (l, \<lparr>rworld = snd (containers_run E l w1),
                        attrs = fst (containers_run E l w1),
                        rcalls = [FreePort, Run l], rlog = []\<rparr>))
          else (case bind_port0 E w1 of
                  (p, w2) \<Rightarrow>
                    (let l = \<lparr>l_image = output_image_spec,
                               ports = [(str p @ ''/tcp'', str p)], detach = True,
                               command = [''jupyter'', ''notebook'', ''--ip'', ''0.0.0.0'',
                                          ''--port'', str p]\<rparr>
                     in (l, \<lparr>rworld = snd (containers_run E l w2),
                             attrs = fst (containers_run E l w2),
                             rcalls = [FreePort, FreePort, Run l], rlog = []\<rparr>))))"
  by (simp add: start_container_def launch_container_def get_free_port_def Let_def
      split: prod.splits)

lemma str_49153: "str 49153 = ''49153''"
  by (simp add: str.simps)



lemma start_container_with_command:
  "start_container port_engine ''r2dimage'' [''/bin/sh'', ''-c'', ''exit 3''] 49153 =
     (\<lparr>l_image = ''r2dimage'', ports = [], detach = True,
       command = [''/bin/sh'', ''-c'', ''exit 3'']\<rparr>,
      \<lparr>rworld = 49154, attrs = \<lparr>status = ''created'', exit_code = 0\<rparr>,
       rcalls = [FreePort,
                 Run \<lparr>l_image = ''r2dimage'', ports = [], detach = True,
                      command = [''/bin/sh'', ''-c'', ''exit 3'']\<rparr>],
       rlog = []\<rparr>)"
  by (simp add: start_container_def launch_container_def get_free_port_def port_engine_def
      Let_def)

text \<open>
  C4 on the code. The log stream of a container that is still running is interrupted.
  The \<^verbatim>\<open>finally\<close> block reloads the container, finds it running, kills it, and removes
  it; the exit code it passes to \<^verbatim>\<open>sys.exit\<close> is the one of the reload before the kill,
  0, while the container ended with code 137.
\<close>

theorem stream_logs_finally_stale_exit_code:
  "stream_logs_finally (toy_engine [''hello''] (Some (Raised ''KeyboardInterrupt'')))
     \<lparr>rworld = \<lparr>t_status = ''running'', t_exit = 0, t_removed = False\<rparr>,
      attrs = \<lparr>status = ''running'', exit_code = 0\<rparr>, rcalls = [], rlog = []\<rparr> =
   (SystemExit 0,
    \<lparr>rworld = \<lparr>t_status = ''exited'', t_exit = 137, t_removed = True\<rparr>,
     attrs = \<lparr>status = ''running'', exit_code = 0\<rparr>,
     rcalls = [Logs, Reload, Kill, Remove],
     rlog = [Log INFO (Text ''hello'') ''running'',
             Log INFO (Text (''Stopping container...'' @ [CHR 0x0A])) ''running'']\<rparr>)"
  by (simp add: stream_logs_finally_def stream_logs_def finally_block_def toy_engine_def Let_def)

lemma run_image_exit_code_3:
  "run_image (toy_engine [''bye''] None) ''r2dimage'' []
     \<lparr>t_status = ''exited'', t_exit = 3, t_removed = False\<rparr> =
   Some (SystemExit 3,
    \<lparr>rworld = \<lparr>t_status = ''exited'', t_exit = 3, t_removed = True\<rparr>,
     attrs = \<lparr>status = ''exited'', exit_code = 3\<rparr>,
     rcalls = [FreePort, FreePort,
               Run \<lparr>l_image = ''r2dimage'', ports = [(''49153/tcp'', ''49153'')], detach = True,
                    command = [''jupyter'', ''notebook'', ''--ip'', ''0.0.0.0'', ''--port'', ''49153'']\<rparr>,
               Sleep, Reload, Logs, Reload, Remove],
     rlog = [Log INFO (Text ''bye'') ''running'']\<rparr>)"
  by (simp add: run_image_def start_container_def launch_container_def get_free_port_def
      wait_created.simps poll_def stream_logs_finally_def stream_logs_def finally_block_def
      toy_engine_def str_49153 Let_def)

section \<open>Properties of start\<close>

lemma run_stage_events:
  "\<exists>es. events (snd (run_stage X self st)) = events st @ es
        \<and> prefix es (if self_run self then [RunStage] else [])"
  by (auto simp: run_stage_def split: option.splits)

lemma push_stage_events:
  "\<exists>es. events (snd (push_stage X self st)) = events st @ es
        \<and> prefix es ((if self_push self then [PushStage] else [])
                      @ (if self_run self then [RunStage] else []))"
proof (cases "self_push self")
  case False
  with run_stage_events [of X self st] show ?thesis by (simp add: push_stage_def)
next
  case True
  show ?thesis
  proof (cases "push_outcome X (self_output_image_spec self)")
    case (Inl e)
    with True show ?thesis by (simp add: push_stage_def)
  next
    case (Inr u)
    from run_stage_events [of X self "st\<lparr>events := events st @ [PushStage]\<rparr>"]
    obtain es where "events (snd (run_stage X self (st\<lparr>events := events st @ [PushStage]\<rparr>)))
          = events st @ PushStage # es"
      and "prefix es (if self_run self then [RunStage] else [])" by auto
    with True Inr show ?thesis by (simp add: push_stage_def)
  qed
qed

lemma cleanup_stage_events:
  "\<exists>es. events (snd (cleanup_stage X self cp st)) = events st @ es
        \<and> prefix es ((if self_cleanup_checkout self then [Rmtree cp] else [])
                      @ (if self_push self then [PushStage] else [])
                      @ (if self_run self then [RunStage] else []))"
proof (cases "self_cleanup_checkout self")
  case False
  with push_stage_events [of X self st] show ?thesis by (simp add: cleanup_stage_def)
next
  case True
  from push_stage_events [of X self "st\<lparr>events := events st @ [Rmtree cp]\<rparr>"]
  obtain es where "events (snd (push_stage X self (st\<lparr>events := events st @ [Rmtree cp]\<rparr>)))
        = events st @ Rmtree cp # es"
    and "prefix es ((if self_push self then [PushStage] else [])
                      @ (if self_run self then [RunStage] else []))" by auto
  with True show ?thesis by (simp add: cleanup_stage_def)
qed

lemma build_stage_events:
  "\<exists>es. events (snd (build_stage X self pk cp st)) = events st @ es
        \<and> prefix es ((if self_build self then [BuildStage, BuildDone] else [])
                      @ (if self_cleanup_checkout self then [Rmtree cp] else [])
                      @ (if self_push self then [PushStage] else [])
                      @ (if self_run self then [RunStage] else []))"
proof (cases "self_build self")
  case False
  with cleanup_stage_events [of X self cp st] show ?thesis by (simp add: build_stage_def)
next
  case True
  show ?thesis
  proof (cases "bp pk")
    case None
    with True show ?thesis by (simp add: build_stage_def)
  next
    case (Some a)
    let ?run = "build_loop (build X (objects pk ! picked_buildpack pk) (self_output_image_spec self))
                  (slog st @ [Log INFO
                       (Text (''Using '' @ bp_name X (objects pk ! a) @ '' builder'' @ [CHR 0x0A]))
                       ''building'']) 0"
    obtain r lg n where run: "?run = (r, lg, n)" by (cases ?run)
    show ?thesis
    proof (cases r)
      case (Inl e)
      with True Some run show ?thesis by (simp add: build_stage_def Let_def)
    next
      case (Inr u)
      let ?st = "st\<lparr>events := events st @ [BuildStage, BuildDone], slog := lg\<rparr>"
      from cleanup_stage_events [of X self cp ?st]
      obtain es where "events (snd (cleanup_stage X self cp ?st))
            = events st @ BuildStage # BuildDone # es"
        and "prefix es ((if self_cleanup_checkout self then [Rmtree cp] else [])
                      @ (if self_push self then [PushStage] else [])
                      @ (if self_run self then [RunStage] else []))" by auto
      with True Some run Inr show ?thesis by (simp add: build_stage_def Let_def)
    qed
  qed
qed

lemma pick_stage_events:
  "\<exists>es. events (snd (pick_stage D T X self cp st)) = events st @ es
        \<and> prefix es ([ChdirStage, PickStage]
                      @ (if self_build self then [BuildStage, BuildDone] else [])
                      @ (if self_cleanup_checkout self then [Rmtree cp] else [])
                      @ (if self_push self then [PushStage] else [])
                      @ (if self_run self then [RunStage] else []))"
proof (cases "chdir_outcome X cp")
  case (Inl e)
  then show ?thesis by (simp add: pick_stage_def)
next
  case (Inr u)
  show ?thesis
  proof (cases "pick_buildpack D (self_parent X) (default_buildpack T) (buildpacks T)")
    case (Inl e)
    with Inr show ?thesis by (simp add: pick_stage_def)
  next
    case pk: (Inr pk)
    let ?st = "st\<lparr>events := events st @ [ChdirStage, PickStage],
                     slog := slog st @
                       [Log DEBUG (Text (render X (objects pk ! picked_buildpack pk)))
                          ''building'']\<rparr>"
    from build_stage_events [of X self pk cp ?st]
    obtain es where "events (snd (build_stage X self pk cp ?st))
          = events st @ ChdirStage # PickStage # es"
      and "prefix es ((if self_build self then [BuildStage, BuildDone] else [])
                      @ (if self_cleanup_checkout self then [Rmtree cp] else [])
                      @ (if self_push self then [PushStage] else [])
                      @ (if self_run self then [RunStage] else []))" by auto
    with Inr pk show ?thesis by (simp add: pick_stage_def)
  qed
qed

lemma start_events_prefix:
  "prefix (events (snd (start D T X self)))
     (plan self (if self_repo_type self = ''local'' then self_repo self
                 else path_join (git_workdir T) (uuid4 X)))"
proof (cases "self_repo_type self = ''local''")
  case True
  from pick_stage_events [of D T X self "self_repo self" "\<lparr>events = [], slog = []\<rparr>"]
  show ?thesis using True by (auto simp: start_def plan_def)
next
  case False
  let ?cp = "path_join (git_workdir T) (uuid4 X)"
  show ?thesis
  proof (cases "fetch_outcome X (self_repo self) (self_ref self) ?cp")
    case (Inl e)
    with False show ?thesis by (simp add: start_def plan_def Let_def)
  next
    case (Inr u)
    from pick_stage_events [of D T X self ?cp "\<lparr>events = [FetchStage], slog = []\<rparr>"]
    show ?thesis using False Inr by (auto simp: start_def plan_def Let_def)
  qed
qed

lemma prefix_split_at:
  assumes "prefix (pre @ x # post) (A @ y # B)"
    and "\<forall>a \<in> set A. \<not> Q a" and "\<forall>b \<in> set B. \<not> Q b" and "Q x"
  shows "pre = A \<and> x = y \<and> prefix post B"
  using assms
proof (induction A arbitrary: pre)
  case Nil
  then show ?case by (cases pre) (auto simp: prefix_def Cons_eq_append_conv)
next
  case (Cons a A)
  show ?case
  proof (cases pre)
    case Nil
    with Cons.prems show ?thesis by (auto simp: prefix_def)
  next
    case (Cons p pre')
    with Cons.prems have "p = a" and "prefix (pre' @ x # post) (A @ y # B)" by simp_all
    with Cons.IH [of pre'] Cons.prems Cons show ?thesis by simp
  qed
qed

lemma prefix_filter_length:
  "prefix xs ys \<Longrightarrow> length (filter Q xs) \<le> length (filter Q ys)"
  by (auto simp: prefix_def)

lemma plan_rmtree_count: "length (filter is_rmtree (plan self cp)) \<le> 1"
  by (simp add: plan_def)

lemma initialize_cleanup:
  "self_cleanup_checkout (initialize path_exists autogenerated args) \<longleftrightarrow>
     \<not> path_exists (args_repo args) \<and> args_clean args"
  "self_repo_type (initialize path_exists autogenerated args) =
     (if path_exists (args_repo args) then ''local'' else ''remote'')"
  "self_build (initialize path_exists autogenerated args) = args_build args"
  by (simp_all add: initialize_def Let_def)

text \<open>
  C7, as the code has it. In an invocation set up by \<^verbatim>\<open>initialize\<close>, the checkout path is
  removed at most once. When it is removed, the repository was remote (the path given
  did not exist locally) and cleaning was not switched off, the path removed is the
  checkout made under \<^verbatim>\<open>git_workdir\<close>, the fetch, the picking and, when building, the whole
  build loop have been gone through before, and the publish and run stages are entered
  only afterwards.
\<close>

theorem start_removes_checkout_after_build:
  "let self = initialize path_exists autogenerated args;
       cp = path_join (git_workdir T) (uuid4 X);
       evs = events (snd (start D T X self))
   in length (filter is_rmtree evs) \<le> 1
    \<and> (\<forall>pre p post. evs = pre @ Rmtree p # post \<longrightarrow>
          \<not> path_exists (args_repo args) \<and> self_repo_type self = ''remote''
          \<and> args_clean args \<and> p = cp
          \<and> pre = [FetchStage, ChdirStage, PickStage]
                  @ (if args_build args then [BuildStage, BuildDone] else [])
          \<and> prefix post ((if self_push self then [PushStage] else [])
                          @ (if self_run self then [RunStage] else [])))"
proof -
  let ?self = "initialize path_exists autogenerated args"
  let ?cp = "path_join (git_workdir T) (uuid4 X)"
  let ?cp' = "if self_repo_type ?self = ''local'' then self_repo ?self else ?cp"
  let ?evs = "events (snd (start D T X ?self))"
  have pre: "prefix ?evs (plan ?self ?cp')" by (rule start_events_prefix)
  have count: "length (filter is_rmtree ?evs) \<le> 1"
    using prefix_filter_length [OF pre, of is_rmtree] plan_rmtree_count [of ?self ?cp']
    by linarith
  have order: "\<not> path_exists (args_repo args) \<and> self_repo_type ?self = ''remote''
          \<and> args_clean args \<and> p = ?cp
          \<and> pre' = [FetchStage, ChdirStage, PickStage]
                  @ (if args_build args then [BuildStage, BuildDone] else [])
          \<and> prefix post ((if self_push ?self then [PushStage] else [])
                          @ (if self_run ?self then [RunStage] else []))"
    if split: "?evs = pre' @ Rmtree p # post" for pre' p post
  proof -
    from pre split have pp: "prefix (pre' @ Rmtree p # post) (plan ?self ?cp')" by simp
    then have "Rmtree p \<in> set (plan ?self ?cp')"
      by (auto simp: prefix_def)
    then have cl: "self_cleanup_checkout ?self"
      by (auto simp: plan_def split: if_splits)
    then have remote: "\<not> path_exists (args_repo args)" and clean: "args_clean args"
      by (simp_all add: initialize_cleanup)
    then have rt: "self_repo_type ?self = ''remote''" by (simp add: initialize_cleanup)
    let ?A = "[FetchStage, ChdirStage, PickStage]
                  @ (if args_build args then [BuildStage, BuildDone] else [])"
    let ?B = "(if self_push ?self then [PushStage] else [])
                          @ (if self_run ?self then [RunStage] else [])"
    have plan_eq: "plan ?self ?cp' = ?A @ Rmtree ?cp # ?B"
      using cl rt by (simp add: plan_def initialize_cleanup)
    have "pre' = ?A \<and> Rmtree p = Rmtree ?cp \<and> prefix post ?B"
    proof (rule prefix_split_at [where Q = is_rmtree])
      show "prefix (pre' @ Rmtree p # post) (?A @ Rmtree ?cp # ?B)"
        using pp plan_eq by simp
      show "\<forall>a \<in> set ?A. \<not> is_rmtree a" by auto
      show "\<forall>b \<in> set ?B. \<not> is_rmtree b" by auto
      show "is_rmtree (Rmtree p)" by simp
    qed
    with remote clean rt show ?thesis by simp
  qed
  show ?thesis unfolding Let_def using count order by blast
qed

lemma demo_fetch:
  "fetch_outcome demo_outside ''https://example.org/repo.git'' (Some ''0a1b2c3'') ''/tmp/1b4e28ba''
     = Inr ()"
  by (simp add: demo_outside_def fetch_def clone_def contains_def checkout_def run_logged_def
      str_50)

lemma demo_push: "push_outcome demo_outside ''r2dimage'' = Inr ()"
  by (simp add: demo_outside_def push_image_def status_record_def update_layers_def
      store_status_def getitem_def setitem_def key_eq_def Let_def)

lemma demo_run: "run_outcome demo_outside ''r2dimage'' [] = Some (SystemExit 3)"
  by (simp add: demo_outside_def run_image_def start_container_def launch_container_def
      get_free_port_def wait_created.simps poll_def stream_logs_finally_def stream_logs_def
      finally_block_def toy_engine_def str_49153 Let_def)

lemma demo_pick:
  "pick_buildpack demo_detectors () [''Base'', ''Python''] [[''Base'', ''Conda'']] =
     Inr \<lparr>picked_buildpack = 1, bp = Some 1,
          objects = [[''Base'', ''Python''], [''Base'', ''Conda'']],
          calls = [ComposeCall [''Base'', ''Python''], ComposeCall [''Base'', ''Conda''],
                   DetectCall 1]\<rparr>"
  by (simp add: pick_buildpack_def compose_def demo_detectors_def Let_def)

lemma demo_start:
  "start demo_detectors demo_traits demo_outside
     (initialize (\<lambda>path. False) (\<lambda>repo. ''r2d'') (demo_args with_push with_run)) =
   ((if with_run then Failed (SystemExit 3) else Returned),
    \<lparr>events = [FetchStage, ChdirStage, PickStage, BuildStage, BuildDone,
               Rmtree ''/tmp/1b4e28ba'']
              @ (if with_push then [PushStage] else [])
              @ (if with_run then [RunStage] else []),
     slog = [Log DEBUG (Text ''BaseConda'') ''building'',
             Log INFO (Text (''Using Conda builder'' @ [CHR 0x0A])) ''building'',
             Log INFO (Value (JStr ''Step 1/1'')) ''building'']\<rparr>)"
proof -
  have o: "chdir_outcome demo_outside = (\<lambda>path. Inr ())" "self_parent demo_outside = ()"
    "uuid4 demo_outside = ''1b4e28ba''" "bp_name demo_outside = last"
    "render demo_outside = concat"
    "build demo_outside = (\<lambda>b spec. [[(''stream'', JStr ''Step 1/1'')]])"
    by (simp_all add: demo_outside_def fun_eq_iff)
  show ?thesis
    by (simp add: start_def pick_stage_def build_stage_def cleanup_stage_def push_stage_def
        run_stage_def initialize_def demo_args_def demo_traits_def path_join_def
        o demo_fetch demo_push demo_run demo_pick Let_def)
qed

theorem start_removes_checkout_after_build_witness:
  "events (snd (start demo_detectors demo_traits demo_outside
       (initialize (\<lambda>path. False) (\<lambda>repo. ''r2d'') (demo_args False False)))) =
     [FetchStage, ChdirStage, PickStage, BuildStage, BuildDone] @ Rmtree ''/tmp/1b4e28ba'' # []
   \<and> \<not> (\<lambda>path. False) (args_repo (demo_args False False))
   \<and> args_clean (demo_args False False)
   \<and> ''/tmp/1b4e28ba'' = path_join (git_workdir demo_traits) (uuid4 demo_outside)"
proof -
  let ?self = "initialize (\<lambda>path. False) (\<lambda>repo. ''r2d'') (demo_args False False)"
  have evs: "events (snd (start demo_detectors demo_traits demo_outside ?self)) =
     [FetchStage, ChdirStage, PickStage, BuildStage, BuildDone] @ Rmtree ''/tmp/1b4e28ba'' # []"
    by (simp add: demo_start)
  from start_removes_checkout_after_build
         [where path_exists = "\<lambda>path. False" and autogenerated = "\<lambda>repo. ''r2d''"
            and args = "demo_args False False" and T = demo_traits and X = demo_outside
            and D = demo_detectors]
  have "\<forall>pre p post.
          events (snd (start demo_detectors demo_traits demo_outside ?self)) = pre @ Rmtree p # post \<longrightarrow>
          \<not> (\<lambda>path. False) (args_repo (demo_args False False))
          \<and> args_clean (demo_args False False)
          \<and> p = path_join (git_workdir demo_traits) (uuid4 demo_outside)"
    unfolding Let_def by blast
  from this [rule_format, OF evs] evs show ?thesis by simp
qed

text \<open>
  With publish and run switched on, the checkout is removed before the publish stage and
  the run stage are entered, not after they have completed.
\<close>

theorem start_removes_checkout_before_push_counterexample:
  "start demo_detectors demo_traits demo_outside
     (initialize (\<lambda>path. False) (\<lambda>repo. ''r2d'') (demo_args True True)) =
   (Failed (SystemExit 3),
    \<lparr>events = [FetchStage, ChdirStage, PickStage, BuildStage, BuildDone,
               Rmtree ''/tmp/1b4e28ba'', PushStage, RunStage],
     slog = [Log DEBUG (Text ''BaseConda'') ''building'',
             Log INFO (Text (''Using Conda builder'' @ [CHR 0x0A])) ''building'',
             Log INFO (Value (JStr ''Step 1/1'')) ''building'']\<rparr>)"
  by (simp add: demo_start)

end
